theory Spec2Isabelle
  imports Main
begin

section \<open>Errors\<close>

text \<open>
  The C++ sources fail in two ways: by throwing (\<open>std::invalid_argument\<close>,
  \<open>std::logic_error\<close>) and by stepping outside what the language defines (reading
  \<open>blocks_[0]\<close> of an empty deque, indexing or popping a vector out of range, signed
  overflow of a coordinate or of a product).  Both are values of the model.
\<close>

datatype error =
    InvalidArgument string
  | LogicError string
  | UndefinedBehaviour

section \<open>Direction (models/Direction.h, models/Direction.cpp)\<close>

datatype Direction = UP | DOWN | LEFT | RIGHT | NONE

text \<open>
  \<open>std::toupper\<close> on the \<open>int\<close> value of an \<open>unsigned char\<close>, in the default "C"
  locale: the bytes \<open>'a'..'z'\<close> (97..122) move down by 32, every other byte is kept.
\<close>

definition toupper :: "char \<Rightarrow> char" where
  "toupper c =
     (let n = (of_char c :: int)
      in if 97 \<le> n \<and> n \<le> 122 then char_of (n - 32) else c)"

definition fromString :: "string \<Rightarrow> error + Direction" where
  "fromString str =
     (let upper_str = map toupper str
      in if upper_str = ''UP'' then Inr UP
         else if upper_str = ''DOWN'' then Inr DOWN
         else if upper_str = ''LEFT'' then Inr LEFT
         else if upper_str = ''RIGHT'' then Inr RIGHT
         else if upper_str = ''NONE'' then Inr NONE
         else Inl (InvalidArgument (''Invalid direction string: '' @ str)))"

fun toString :: "Direction \<Rightarrow> string" where
  "toString UP = ''UP''"
| "toString DOWN = ''DOWN''"
| "toString LEFT = ''LEFT''"
| "toString RIGHT = ''RIGHT''"
| "toString NONE = ''NONE''"

definition isOpposite :: "Direction \<Rightarrow> Direction \<Rightarrow> bool" where
  "isOpposite dir1 dir2 \<longleftrightarrow>
     (dir1 = UP \<and> dir2 = DOWN) \<or>
     (dir1 = DOWN \<and> dir2 = UP) \<or>
     (dir1 = LEFT \<and> dir2 = RIGHT) \<or>
     (dir1 = RIGHT \<and> dir2 = LEFT)"

fun getOpposite :: "Direction \<Rightarrow> Direction" where
  "getOpposite UP = DOWN"
| "getOpposite DOWN = UP"
| "getOpposite LEFT = RIGHT"
| "getOpposite RIGHT = LEFT"
| "getOpposite NONE = NONE"

section \<open>Point (models/Point.h, models/Point.cpp)\<close>

text \<open>
  A point is a pair of C++ \<open>int\<close> coordinates (32 bits, signed).  The model writes a
  coordinate as a mathematical integer; where the code adds to a coordinate or subtracts
  from it, a result outside \<open>INT_MIN .. INT_MAX\<close> is signed overflow, which C++ leaves
  undefined, and is an error of the model.
\<close>

definition INT_MAX :: int where
  "INT_MAX = 2147483647"

definition INT_MIN :: int where
  "INT_MIN = - 2147483648"

datatype Point = Point (px: int) (py: int)

definition Point_default :: Point where
  "Point_default = Point 0 0"

definition Null :: Point where
  "Null = Point (- 1) (- 1)"

definition isNull :: "Point \<Rightarrow> bool" where
  "isNull p \<longleftrightarrow> px p = - 1 \<and> py p = - 1"

section \<open>Snake (models/Snake.h, models/Snake.cpp)\<close>

record Snake =
  blocks :: "Point list"
  blockSet :: "Point set"
  currentDirection :: Direction
  invincibleRounds :: int
  alive :: bool
  growthPending :: int

record MoveResult =
  moved :: bool
  newHead :: Point
  tailRemoved :: bool
  removedTail :: Point

definition MoveResult_default :: MoveResult where
  "MoveResult_default =
     \<lparr>moved = False, newHead = Point_default, tailRemoved = False,
      removedTail = Point_default\<rparr>"

definition Snake_default :: Snake where
  "Snake_default =
     \<lparr>blocks = [], blockSet = {}, currentDirection = NONE, invincibleRounds = 0,
      alive = False, growthPending = 0\<rparr>"

definition Snake_init :: "Point \<Rightarrow> int \<Rightarrow> error + Snake" where
  "Snake_init initialHead initialLength =
     (if initialLength < 1
      then Inl (InvalidArgument ''Snake initial length must be at least 1'')
      else Inr \<lparr>blocks = [initialHead], blockSet = {initialHead},
                currentDirection = NONE, invincibleRounds = 0, alive = True,
                growthPending = initialLength - 1\<rparr>)"

text \<open>
  The \<open>switch\<close> of \<open>moveWithDelta\<close> that turns the head into the new head:
  \<open>newHead.y -= 1\<close>, \<open>newHead.y += 1\<close>, \<open>newHead.x -= 1\<close> or \<open>newHead.x += 1\<close>, each
  undefined when it leaves the range of \<open>int\<close>.
\<close>

fun advance :: "Direction \<Rightarrow> Point \<Rightarrow> error + Point" where
  "advance UP p =
     (if py p - 1 < INT_MIN then Inl UndefinedBehaviour else Inr (Point (px p) (py p - 1)))"
| "advance DOWN p =
     (if py p + 1 > INT_MAX then Inl UndefinedBehaviour else Inr (Point (px p) (py p + 1)))"
| "advance LEFT p =
     (if px p - 1 < INT_MIN then Inl UndefinedBehaviour else Inr (Point (px p - 1) (py p)))"
| "advance RIGHT p =
     (if px p + 1 > INT_MAX then Inl UndefinedBehaviour else Inr (Point (px p + 1) (py p)))"
| "advance NONE p = Inr p"

text \<open>The steps that stay within the range of \<open>int\<close>.\<close>

definition stepInRange :: "Direction \<Rightarrow> Point \<Rightarrow> bool" where
  "stepInRange d p =
     (case d of
        UP \<Rightarrow> INT_MIN \<le> py p - 1
      | DOWN \<Rightarrow> py p + 1 \<le> INT_MAX
      | LEFT \<Rightarrow> INT_MIN \<le> px p - 1
      | RIGHT \<Rightarrow> px p + 1 \<le> INT_MAX
      | NONE \<Rightarrow> True)"

text \<open>
  \<open>moveWithDelta\<close> returns the move result together with the updated snake.  Reading
  \<open>blocks_[0]\<close> of an empty deque is undefined in C++ and is an error of the model.
\<close>

definition moveWithDelta :: "Snake \<Rightarrow> error + (MoveResult \<times> Snake)" where
  "moveWithDelta s =
     (if \<not> alive s then Inr (MoveResult_default, s)
      else if currentDirection s = NONE then Inr (MoveResult_default, s)
      else (case blocks s of
              [] \<Rightarrow> Inl UndefinedBehaviour
            | h # rest \<Rightarrow>
                (case advance (currentDirection s) h of
                   Inl e \<Rightarrow> Inl e
                 | Inr nh \<Rightarrow>
                     if growthPending s > 0
                     then Inr (\<lparr>moved = True, newHead = nh, tailRemoved = False,
                                removedTail = Point_default\<rparr>,
                               s\<lparr>blocks := nh # blocks s,
                                 blockSet := insert nh (blockSet s),
                                 growthPending := growthPending s - 1\<rparr>)
                     else (let tail = last (blocks s)
                           in Inr (\<lparr>moved = True, newHead = nh, tailRemoved = True,
                                     removedTail = tail\<rparr>,
                                    s\<lparr>blocks := nh # butlast (blocks s),
                                      blockSet := insert nh (blockSet s - {tail})\<rparr>)))))"

definition grow :: "Snake \<Rightarrow> Snake" where
  "grow s = s\<lparr>growthPending := growthPending s + 1\<rparr>"

definition getHead :: "Snake \<Rightarrow> error + Point" where
  "getHead s =
     (case blocks s of
        [] \<Rightarrow> Inl (LogicError ''Cannot get head of a dead snake (blocks_ is empty)'')
      | h # rest \<Rightarrow> Inr h)"

definition getLength :: "Snake \<Rightarrow> int" where
  "getLength s = int (length (blocks s))"

definition setDirection :: "Direction \<Rightarrow> Snake \<Rightarrow> Snake" where
  "setDirection dir s =
     (if currentDirection s \<noteq> NONE \<and> isOpposite (currentDirection s) dir then s
      else s\<lparr>currentDirection := dir\<rparr>)"

definition setInvincibleRounds :: "int \<Rightarrow> Snake \<Rightarrow> Snake" where
  "setInvincibleRounds rounds s = s\<lparr>invincibleRounds := rounds\<rparr>"

definition kill :: "Snake \<Rightarrow> Snake" where
  "kill s = s\<lparr>alive := False, blocks := [], blockSet := {}\<rparr>"

definition decreaseInvincibleRounds :: "Snake \<Rightarrow> Snake" where
  "decreaseInvincibleRounds s =
     (if invincibleRounds s > 0 then s\<lparr>invincibleRounds := invincibleRounds s - 1\<rparr>
      else s)"

definition collidesWithSelf :: "Snake \<Rightarrow> Point \<Rightarrow> bool" where
  "collidesWithSelf s point =
     (if length (blocks s) \<le> 1 then False
      else if blocks s \<noteq> [] \<and> point = hd (blocks s) then False
      else point \<in> blockSet s)"

definition collidesWithBody :: "Snake \<Rightarrow> Point \<Rightarrow> bool" where
  "collidesWithBody s point \<longleftrightarrow> point \<in> blockSet s"

text \<open>
  A snake that has never run over itself: the set mirrors the chain, the chain is
  non-empty exactly when the snake is alive, and no cell occurs twice in the chain.
\<close>

definition snake_inv :: "Snake \<Rightarrow> bool" where
  "snake_inv s \<longleftrightarrow>
     blockSet s = set (blocks s) \<and> distinct (blocks s) \<and> (alive s \<longleftrightarrow> blocks s \<noteq> [])"

text \<open>
  The snakes that the class can hold: the fields are private, so every snake comes from a
  constructor and the member functions that change it.
\<close>

inductive snake_reachable :: "Snake \<Rightarrow> bool" where
  reach_default: "snake_reachable Snake_default"
| reach_init: "Snake_init initialHead initialLength = Inr s \<Longrightarrow> snake_reachable s"
| reach_move: "snake_reachable s \<Longrightarrow> moveWithDelta s = Inr (r, s') \<Longrightarrow> snake_reachable s'"
| reach_grow: "snake_reachable s \<Longrightarrow> snake_reachable (grow s)"
| reach_setDirection: "snake_reachable s \<Longrightarrow> snake_reachable (setDirection dir s)"
| reach_setInvincibleRounds:
    "snake_reachable s \<Longrightarrow> snake_reachable (setInvincibleRounds rounds s)"
| reach_kill: "snake_reachable s \<Longrightarrow> snake_reachable (kill s)"
| reach_decreaseInvincibleRounds:
    "snake_reachable s \<Longrightarrow> snake_reachable (decreaseInvincibleRounds s)"

text \<open>
  What every such snake satisfies, also after it has run over itself: the body set holds
  only cells of the chain, it holds the head, and the chain is non-empty exactly when the
  snake is alive.
\<close>

definition snake_shape :: "Snake \<Rightarrow> bool" where
  "snake_shape s \<longleftrightarrow>
     blockSet s \<subseteq> set (blocks s) \<and> (blocks s \<noteq> [] \<longrightarrow> hd (blocks s) \<in> blockSet s) \<and>
     (alive s \<longleftrightarrow> blocks s \<noteq> [])"

section \<open>Food and Player (models/Food.h, models/Player.h)\<close>

datatype Food = Food (getPosition: Point)

text \<open>
  The fields of a player are named after the accessors of the class (\<open>getId\<close> reads
  \<open>id_\<close>, \<open>isInGame\<close> reads \<open>inGame_\<close>, and so on).
\<close>

record Player =
  getUid :: string
  getId :: string
  getName :: string
  getColor :: string
  getKey :: string
  getToken :: string
  getSnake :: Snake
  isInGame :: bool

section \<open>GameState (models/GameState.h, models/GameState.cpp)\<close>

text \<open>
  \<open>players_\<close> is a vector of shared pointers, which may be null: an entry is
  \<open>None\<close> or \<open>Some\<close> player.  \<open>foodSet_\<close> is a set of points and
  \<open>foodIndex_\<close> a map from points to vector indices (\<open>std::size_t\<close>).
\<close>

record GameState =
  currentRound :: int
  players :: "Player option list"
  foods :: "Food list"
  foodSet :: "Point set"
  foodIndex :: "Point \<rightharpoonup> nat"
  timestamp :: int
  nextRoundTimestamp :: int
  joinedPlayers :: "string list"
  diedPlayers :: "string list"
  addedFoods :: "Point list"
  removedFoods :: "Point list"

definition GameState_init :: GameState where
  "GameState_init =
     \<lparr>currentRound = 0, players = [], foods = [], foodSet = {}, foodIndex = Map.empty,
      timestamp = 0, nextRoundTimestamp = 0, joinedPlayers = [], diedPlayers = [],
      addedFoods = [], removedFoods = []\<rparr>"

definition incrementRound :: "GameState \<Rightarrow> GameState" where
  "incrementRound s = s\<lparr>currentRound := currentRound s + 1\<rparr>"

definition clearDeltaTracking :: "GameState \<Rightarrow> GameState" where
  "clearDeltaTracking s =
     s\<lparr>joinedPlayers := [], diedPlayers := [], addedFoods := [], removedFoods := []\<rparr>"

definition reset :: "GameState \<Rightarrow> GameState" where
  "reset s =
     clearDeltaTracking
       (s\<lparr>currentRound := 0, players := [], foods := [], timestamp := 0,
          nextRoundTimestamp := 0\<rparr>)"

text \<open>The lambda of \<open>removePlayer\<close> and the test of the loops over \<open>players_\<close>.\<close>

definition hasId :: "string \<Rightarrow> Player option \<Rightarrow> bool" where
  "hasId playerId p = (case p of None \<Rightarrow> False | Some q \<Rightarrow> getId q = playerId)"

definition addPlayer :: "Player option \<Rightarrow> GameState \<Rightarrow> GameState" where
  "addPlayer player s =
     (case player of
        None \<Rightarrow> s
      | Some q \<Rightarrow>
          if list_ex (hasId (getId q)) (players s) then s
          else s\<lparr>players := players s @ [player]\<rparr>)"

definition removePlayer :: "string \<Rightarrow> GameState \<Rightarrow> GameState" where
  "removePlayer playerId s =
     s\<lparr>players := filter (\<lambda>p. \<not> hasId playerId p) (players s)\<rparr>"

definition getPlayer :: "string \<Rightarrow> GameState \<Rightarrow> Player option" where
  "getPlayer playerId s =
     (case find (hasId playerId) (players s) of None \<Rightarrow> None | Some p \<Rightarrow> p)"

definition addFood :: "Food \<Rightarrow> GameState \<Rightarrow> GameState" where
  "addFood food s =
     (let pos = getPosition food
      in if pos \<in> foodSet s then s
         else s\<lparr>foods := foods s @ [food],
                foodSet := insert pos (foodSet s),
                foodIndex := (foodIndex s)(pos \<mapsto> length (foods s @ [food]) - 1)\<rparr>)"

text \<open>
  \<open>foods_.size() - 1\<close> is computed on \<open>std::size_t\<close> (64 bits, unsigned): on an
  empty vector it wraps to the largest value.
\<close>

definition size_minus_one :: "nat \<Rightarrow> nat" where
  "size_minus_one n = (if n = 0 then 2 ^ 64 - 1 else n - 1)"

text \<open>
  \<open>removeFood\<close>: swap with the last element, then pop.  Indexing the vector out of
  range and popping an empty vector are undefined in C++; they are errors of the model.
\<close>

definition removeFood :: "Point \<Rightarrow> GameState \<Rightarrow> error + GameState" where
  "removeFood position s =
     (case foodIndex s position of
        None \<Rightarrow> Inr s
      | Some index \<Rightarrow>
          (let lastIndex = size_minus_one (length (foods s))
           in if index \<noteq> lastIndex
              then (if index < length (foods s) \<and> lastIndex < length (foods s)
                    then (let swapped = (foods s)[index := foods s ! lastIndex,
                                                   lastIndex := foods s ! index];
                              swappedPos = getPosition (swapped ! index)
                          in Inr (s\<lparr>foods := butlast swapped,
                                    foodSet := foodSet s - {position},
                                    foodIndex :=
                                      ((foodIndex s)(swappedPos \<mapsto> index))(position := None)\<rparr>))
                    else Inl UndefinedBehaviour)
              else (if foods s = [] then Inl UndefinedBehaviour
                    else Inr (s\<lparr>foods := butlast (foods s),
                              foodSet := foodSet s - {position},
                              foodIndex := (foodIndex s)(position := None)\<rparr>))))"

definition clearFood :: "GameState \<Rightarrow> GameState" where
  "clearFood s = s\<lparr>foods := [], foodSet := {}, foodIndex := Map.empty\<rparr>"

definition hasFoodAt :: "GameState \<Rightarrow> Point \<Rightarrow> bool" where
  "hasFoodAt s position \<longleftrightarrow> position \<in> foodSet s"

definition updateTimestamp :: "int \<Rightarrow> GameState \<Rightarrow> GameState" where
  \<comment> \<open>the first argument is the reading of the system clock, in milliseconds\<close>
  "updateTimestamp now s = s\<lparr>timestamp := now\<rparr>"

definition setNextRoundTimestamp :: "int \<Rightarrow> GameState \<Rightarrow> GameState" where
  "setNextRoundTimestamp t s = s\<lparr>nextRoundTimestamp := t\<rparr>"

definition trackPlayerJoined :: "string \<Rightarrow> GameState \<Rightarrow> GameState" where
  "trackPlayerJoined playerId s = s\<lparr>joinedPlayers := joinedPlayers s @ [playerId]\<rparr>"

definition trackPlayerDied :: "string \<Rightarrow> GameState \<Rightarrow> GameState" where
  "trackPlayerDied playerId s = s\<lparr>diedPlayers := diedPlayers s @ [playerId]\<rparr>"

definition trackFoodAdded :: "Point \<Rightarrow> GameState \<Rightarrow> GameState" where
  "trackFoodAdded position s = s\<lparr>addedFoods := addedFoods s @ [position]\<rparr>"

definition trackFoodRemoved :: "Point \<Rightarrow> GameState \<Rightarrow> GameState" where
  "trackFoodRemoved position s = s\<lparr>removedFoods := removedFoods s @ [position]\<rparr>"

text \<open>
  The consistency of the three food containers: the set holds the positions of the
  vector, the positions of the vector are pairwise distinct, the index map is defined
  exactly on the set, and it sends the position of the food at index \<open>i\<close> to \<open>i\<close>.
\<close>

definition food_inv :: "GameState \<Rightarrow> bool" where
  "food_inv s \<longleftrightarrow>
     foodSet s = getPosition ` set (foods s) \<and>
     distinct (map getPosition (foods s)) \<and>
     dom (foodIndex s) = foodSet s \<and>
     (\<forall>i < length (foods s). foodIndex s (getPosition (foods s ! i)) = Some i)"

text \<open>The food operations of the world state, and running a sequence of them.\<close>

datatype food_op = AddFood Food | RemoveFood Point | ClearFood | Reset

fun apply_food_op :: "food_op \<Rightarrow> GameState \<Rightarrow> error + GameState" where
  "apply_food_op (AddFood f) s = Inr (addFood f s)"
| "apply_food_op (RemoveFood p) s = removeFood p s"
| "apply_food_op ClearFood s = Inr (clearFood s)"
| "apply_food_op Reset s = Inr (reset s)"

fun run_food_ops :: "food_op list \<Rightarrow> GameState \<Rightarrow> error + GameState" where
  "run_food_ops [] s = Inr s"
| "run_food_ops (x # xs) s =
     (case apply_food_op x s of Inl e \<Rightarrow> Inl e | Inr s' \<Rightarrow> run_food_ops xs s')"

section \<open>MapManager (managers/MapManager.h, managers/MapManager.cpp)\<close>

record MapManager =
  width :: int
  height :: int

definition isValidPosition :: "MapManager \<Rightarrow> Point \<Rightarrow> bool" where
  "isValidPosition m pos \<longleftrightarrow>
     px pos \<ge> 0 \<and> px pos < width m \<and> py pos \<ge> 0 \<and> py pos < height m"

definition isOutOfBounds :: "MapManager \<Rightarrow> Point \<Rightarrow> bool" where
  "isOutOfBounds m pos \<longleftrightarrow> \<not> isValidPosition m pos"

text \<open>
  The enumeration \<open>CollisionType\<close>; its first value is \<open>NONE\<close> in the source, a name
  that the directions already use here.
\<close>

datatype CollisionType = NO_COLLISION | WALL | SELF | OTHER_SNAKE

text \<open>
  The loop of \<open>checkCollision\<close> over all players: true when the loop returns
  \<open>OTHER_SNAKE\<close>, false when it runs to its end.
\<close>

fun hitsOtherSnake :: "Player \<Rightarrow> Point \<Rightarrow> Player option list \<Rightarrow> bool" where
  "hitsOtherSnake player newPos [] = False"
| "hitsOtherSnake player newPos (None # rest) = hitsOtherSnake player newPos rest"
| "hitsOtherSnake player newPos (Some otherPlayer # rest) =
     (if getId otherPlayer = getId player then hitsOtherSnake player newPos rest
      else if \<not> isInGame otherPlayer then hitsOtherSnake player newPos rest
      else if \<not> alive (getSnake otherPlayer) then hitsOtherSnake player newPos rest
      else if collidesWithBody (getSnake otherPlayer) newPos then True
      else hitsOtherSnake player newPos rest)"

definition checkCollision ::
  "MapManager \<Rightarrow> Player \<Rightarrow> Point \<Rightarrow> Player option list \<Rightarrow> CollisionType" where
  "checkCollision m player newPos allPlayers =
     (if isOutOfBounds m newPos then WALL
      else if collidesWithSelf (getSnake player) newPos then SELF
      else if hitsOtherSnake player newPos allPlayers then OTHER_SNAKE
      else NO_COLLISION)"

text \<open>
  The classification as the specification words it (section 4.2): the wall first, then
  the player's own body cells without the head, then the body set of any other live,
  in-game snake.  The body cells of a snake are the cells of its body set (\<open>blockSet_\<close>,
  which the header introduces as the lookup of the body blocks), and its head is the
  front of the chain; a snake of at most one chain cell has no body cell besides its head.
\<close>

definition ownBodyCells :: "Snake \<Rightarrow> Point set" where
  "ownBodyCells s =
     (if length (blocks s) \<le> 1 then {} else blockSet s - {hd (blocks s)})"

definition otherLiveSnakeAt :: "Player \<Rightarrow> Point \<Rightarrow> Player option list \<Rightarrow> bool" where
  "otherLiveSnakeAt player newPos allPlayers \<longleftrightarrow>
     (\<exists>q \<in> set allPlayers.
        case q of
          None \<Rightarrow> False
        | Some other \<Rightarrow>
            getId other \<noteq> getId player \<and> isInGame other \<and> alive (getSnake other) \<and>
            newPos \<in> blockSet (getSnake other))"

definition classify_spec ::
  "MapManager \<Rightarrow> Player \<Rightarrow> Point \<Rightarrow> Player option list \<Rightarrow> CollisionType" where
  "classify_spec m player newPos allPlayers =
     (if \<not> (0 \<le> px newPos \<and> px newPos < width m \<and> 0 \<le> py newPos \<and> py newPos < height m)
      then WALL
      else if newPos \<in> ownBodyCells (getSnake player) then SELF
      else if otherLiveSnakeAt player newPos allPlayers then OTHER_SNAKE
      else NO_COLLISION)"

text \<open>Setting the invincibility counter of a player's snake.\<close>

definition withInvincible :: "int \<Rightarrow> Player \<Rightarrow> Player" where
  "withInvincible rounds p = p\<lparr>getSnake := setInvincibleRounds rounds (getSnake p)\<rparr>"

subsection \<open>Random numbers\<close>

text \<open>
  \<open>rng_\<close> is a \<open>std::mt19937\<close>.  The generator is a sequence of raw outputs and a
  position in it; \<open>std::uniform_int_distribution<int>(a, b)\<close> consumes an output and
  delivers a value of the range \<open>a..b\<close>.  Every sequence of in-range values is
  delivered by some sequence of raw outputs, so a statement for all generators covers
  all runs of the program.
\<close>

type_synonym rng = "nat \<Rightarrow> nat"

definition uniform_int :: "int \<Rightarrow> int \<Rightarrow> rng \<Rightarrow> nat \<Rightarrow> int \<times> nat" where
  "uniform_int a b g k = (a + int (g k mod nat (b - a + 1)), Suc k)"

text \<open>\<open>Point candidate{distX(rng_), distY(rng_)}\<close>: first the column, then the row.\<close>

definition drawCandidate :: "MapManager \<Rightarrow> rng \<Rightarrow> nat \<Rightarrow> Point \<times> nat" where
  "drawCandidate m g k =
     (let (cx, k1) = uniform_int 0 (width m - 1) g k;
          (cy, k2) = uniform_int 0 (height m - 1) g k1
      in (Point cx cy, k2))"

subsection \<open>Food generation\<close>

text \<open>
  The inner loop of \<open>generateFoodFast\<close>: at most the given number of attempts, each
  drawing a candidate; the first candidate that passes the four tests is returned.
\<close>

fun attemptFast ::
  "nat \<Rightarrow> MapManager \<Rightarrow> rng \<Rightarrow> (Point \<rightharpoonup> int) \<Rightarrow> Point set \<Rightarrow> Point set \<Rightarrow> nat
     \<Rightarrow> Point option \<times> nat" where
  "attemptFast 0 m g occupiedCounts existingFoods generatedPositions k = (None, k)"
| "attemptFast (Suc n) m g occupiedCounts existingFoods generatedPositions k =
     (case drawCandidate m g k of
        (candidate, k') \<Rightarrow>
          if \<not> isValidPosition m candidate
          then attemptFast n m g occupiedCounts existingFoods generatedPositions k'
          else if candidate \<in> existingFoods
          then attemptFast n m g occupiedCounts existingFoods generatedPositions k'
          else if candidate \<in> generatedPositions
          then attemptFast n m g occupiedCounts existingFoods generatedPositions k'
          else if occupiedCounts candidate \<noteq> None
          then attemptFast n m g occupiedCounts existingFoods generatedPositions k'
          else (Some candidate, k'))"

text \<open>The outer loop: one round of attempts for each requested food.\<close>

fun foodLoopFast ::
  "nat \<Rightarrow> MapManager \<Rightarrow> rng \<Rightarrow> (Point \<rightharpoonup> int) \<Rightarrow> Point set \<Rightarrow> Food list \<Rightarrow> Point set
     \<Rightarrow> nat \<Rightarrow> Food list \<times> nat" where
  "foodLoopFast 0 m g occupiedCounts existingFoods fs generatedPositions k = (fs, k)"
| "foodLoopFast (Suc n) m g occupiedCounts existingFoods fs generatedPositions k =
     (case attemptFast 100 m g occupiedCounts existingFoods generatedPositions k of
        (Some candidate, k') \<Rightarrow>
          foodLoopFast n m g occupiedCounts existingFoods (fs @ [Food candidate])
            (insert candidate generatedPositions) k'
      | (None, k') \<Rightarrow>
          foodLoopFast n m g occupiedCounts existingFoods fs generatedPositions k')"

text \<open>
  The number of foods the loops try to make: a request above half of the cells is
  replaced by \<open>std::max(1, totalCells / 2)\<close>.  \<open>totalCells\<close> is positive where this is
  computed, so the truncating division of C++ is \<open>div\<close>.
\<close>

definition cappedCount :: "MapManager \<Rightarrow> int \<Rightarrow> int" where
  "cappedCount m count =
     (let totalCells = width m * height m
      in if count > totalCells div 2 then max 1 (totalCells div 2) else count)"

text \<open>
  \<open>generateFoodFast\<close> returns the foods and the new position of the generator.  The
  product \<open>width_ * height_\<close> is an \<open>int\<close>: beyond \<open>INT_MAX\<close> it is undefined.
\<close>

definition generateFoodFast ::
  "MapManager \<Rightarrow> rng \<Rightarrow> nat \<Rightarrow> int \<Rightarrow> (Point \<rightharpoonup> int) \<Rightarrow> Point set
     \<Rightarrow> error + (Food list \<times> nat)" where
  "generateFoodFast m g k count occupiedCounts existingFoods =
     (if count \<le> 0 then Inr ([], k)
      else if width m \<le> 0 \<or> height m \<le> 0 then Inr ([], k)
      else if width m * height m > INT_MAX then Inl UndefinedBehaviour
      else Inr (foodLoopFast (nat (cappedCount m count)) m g occupiedCounts existingFoods
                  [] {} k))"

text \<open>The list-walking variant \<open>generateFood\<close> and its occupancy test.\<close>

fun isPositionOccupied :: "Point \<Rightarrow> Player option list \<Rightarrow> bool" where
  "isPositionOccupied pos [] = False"
| "isPositionOccupied pos (None # rest) = isPositionOccupied pos rest"
| "isPositionOccupied pos (Some player # rest) =
     (if \<not> isInGame player \<or> \<not> alive (getSnake player) then isPositionOccupied pos rest
      else if collidesWithBody (getSnake player) pos then True
      else isPositionOccupied pos rest)"

fun attemptSlow ::
  "nat \<Rightarrow> MapManager \<Rightarrow> rng \<Rightarrow> Player option list \<Rightarrow> Point set \<Rightarrow> nat
     \<Rightarrow> Point option \<times> nat" where
  "attemptSlow 0 m g ps generatedPositions k = (None, k)"
| "attemptSlow (Suc n) m g ps generatedPositions k =
     (case drawCandidate m g k of
        (candidate, k') \<Rightarrow>
          if \<not> isValidPosition m candidate
          then attemptSlow n m g ps generatedPositions k'
          else if candidate \<in> generatedPositions
          then attemptSlow n m g ps generatedPositions k'
          else if isPositionOccupied candidate ps
          then attemptSlow n m g ps generatedPositions k'
          else (Some candidate, k'))"

fun foodLoopSlow ::
  "nat \<Rightarrow> MapManager \<Rightarrow> rng \<Rightarrow> Player option list \<Rightarrow> Food list \<Rightarrow> Point set \<Rightarrow> nat
     \<Rightarrow> Food list \<times> nat" where
  "foodLoopSlow 0 m g ps fs generatedPositions k = (fs, k)"
| "foodLoopSlow (Suc n) m g ps fs generatedPositions k =
     (case attemptSlow 100 m g ps generatedPositions k of
        (Some candidate, k') \<Rightarrow>
          foodLoopSlow n m g ps (fs @ [Food candidate])
            (insert candidate generatedPositions) k'
      | (None, k') \<Rightarrow> foodLoopSlow n m g ps fs generatedPositions k')"

definition generateFood ::
  "MapManager \<Rightarrow> rng \<Rightarrow> nat \<Rightarrow> int \<Rightarrow> Player option list \<Rightarrow> error + (Food list \<times> nat)" where
  "generateFood m g k count ps =
     (if count \<le> 0 then Inr ([], k)
      else if width m \<le> 0 \<or> height m \<le> 0 then Inr ([], k)
      else if width m * height m > INT_MAX then Inl UndefinedBehaviour
      else Inr (foodLoopSlow (nat (cappedCount m count)) m g ps [] {} k))"

section \<open>The players table (database/DatabaseManager.cpp)\<close>

text \<open>
  The table \<open>players(uid PRIMARY KEY, paste, key UNIQUE, created_at, last_login)\<close> is a
  list of rows.  A statement run on a database that is not connected fails, and a query
  on it has no row.  A write that would break the primary key or the uniqueness of
  \<open>key\<close> fails and changes nothing.

  Every parameter of a statement is bound by \<open>bindParameters\<close> with
  \<open>sqlite3_bind_text(stmt, i + 1, params[i].c_str(), -1, SQLITE_TRANSIENT)\<close>: the text
  that reaches the table is the C string, the bytes before the first NUL byte.
  \<open>ResultSet::getString\<close> builds its result from a C string in the same way.
\<close>

definition c_str :: "string \<Rightarrow> string" where
  "c_str s = takeWhile (\<lambda>c. c \<noteq> CHR 0x00) s"

record PlayerRow =
  row_uid :: string
  row_paste :: string
  row_key :: string
  row_created_at :: int
  row_last_login :: int

record Database =
  connected :: bool
  playersTable :: "PlayerRow list"

text \<open>\<open>SELECT key, paste FROM players WHERE uid = ?\<close>\<close>

definition selectByUid :: "Database \<Rightarrow> string \<Rightarrow> PlayerRow option" where
  "selectByUid d u =
     (if connected d then find (\<lambda>r. row_uid r = c_str u) (playersTable d) else None)"

text \<open>\<open>SELECT uid FROM players WHERE key = ?\<close>, the uid read with \<open>getString\<close>\<close>

definition selectUidByKey :: "Database \<Rightarrow> string \<Rightarrow> string option" where
  "selectUidByKey d k =
     (if connected d
      then map_option (\<lambda>r. c_str (row_uid r))
             (find (\<lambda>r. row_key r = c_str k) (playersTable d))
      else None)"

text \<open>\<open>UPDATE players SET last_login = ? WHERE uid = ?\<close>\<close>

definition updateLastLogin :: "Database \<Rightarrow> int \<Rightarrow> string \<Rightarrow> bool \<times> Database" where
  "updateLastLogin d now u =
     (if \<not> connected d then (False, d)
      else (True,
            d\<lparr>playersTable :=
                map (\<lambda>r. if row_uid r = c_str u then r\<lparr>row_last_login := now\<rparr> else r)
                  (playersTable d)\<rparr>))"

text \<open>\<open>UPDATE players SET paste = ?, key = ?, last_login = ? WHERE uid = ?\<close>\<close>

definition updatePasteKey ::
  "Database \<Rightarrow> string \<Rightarrow> string \<Rightarrow> int \<Rightarrow> string \<Rightarrow> bool \<times> Database" where
  "updatePasteKey d paste newKey now u =
     (if \<not> connected d then (False, d)
      else if list_ex (\<lambda>r. row_uid r = c_str u) (playersTable d) \<and>
              list_ex (\<lambda>r. row_uid r \<noteq> c_str u \<and> row_key r = c_str newKey) (playersTable d)
      then (False, d)
      else (True,
            d\<lparr>playersTable :=
                map (\<lambda>r. if row_uid r = c_str u
                         then r\<lparr>row_paste := c_str paste, row_key := c_str newKey,
                                row_last_login := now\<rparr>
                         else r)
                  (playersTable d)\<rparr>))"

text \<open>
  \<open>INSERT INTO players (uid, paste, key, created_at, last_login) VALUES (?, ?, ?, ?, ?)\<close>
\<close>

definition insertPlayer ::
  "Database \<Rightarrow> string \<Rightarrow> string \<Rightarrow> string \<Rightarrow> int \<Rightarrow> bool \<times> Database" where
  "insertPlayer d u paste k now =
     (if \<not> connected d then (False, d)
      else if list_ex (\<lambda>r. row_uid r = c_str u \<or> row_key r = c_str k) (playersTable d)
      then (False, d)
      else (True,
            d\<lparr>playersTable :=
                playersTable d @
                  [\<lparr>row_uid = c_str u, row_paste = c_str paste, row_key = c_str k,
                    row_created_at = now, row_last_login = now\<rparr>]\<rparr>))"

text \<open>
  What holds of every table that these statements have written: no two rows share a uid
  or a key, and the stored texts are C strings.
\<close>

definition table_ok :: "Database \<Rightarrow> bool" where
  "table_ok d \<longleftrightarrow>
     distinct (map row_uid (playersTable d)) \<and> distinct (map row_key (playersTable d)) \<and>
     (\<forall>r \<in> set (playersTable d).
        c_str (row_uid r) = row_uid r \<and> c_str (row_paste r) = row_paste r \<and>
        c_str (row_key r) = row_key r)"

definition keyInTable :: "Database \<Rightarrow> string \<Rightarrow> bool" where
  "keyInTable d k \<longleftrightarrow> list_ex (\<lambda>r. row_key r = c_str k) (playersTable d)"

section \<open>PlayerManager (managers/PlayerManager.h, managers/PlayerManager.cpp)\<close>

record PlayerManager =
  db :: Database
  uidToKey :: "string \<rightharpoonup> string"
  keyToUid :: "string \<rightharpoonup> string"

text \<open>
  \<open>login\<close> depends on three things outside the program: the identity check
  (\<open>checkLogin\<close>, which fetches a page over the network), the key that
  \<open>generateKey\<close> makes (the hexadecimal digits of a SHA-256 hash of the uid, the clock
  and a random number), and the clock.  They are arguments of the model.  The empty
  string is the failure value.  \<open>existingKey\<close> and \<open>existingPaste\<close> are read from the
  row with \<open>getString\<close>.
\<close>

definition login ::
  "(string \<Rightarrow> string \<Rightarrow> bool) \<Rightarrow> string \<Rightarrow> int \<Rightarrow> string \<Rightarrow> string \<Rightarrow> PlayerManager
     \<Rightarrow> string \<times> PlayerManager" where
  "login checkLogin generatedKey now u paste pm =
     (if \<not> checkLogin u paste then ([], pm)
      else (case selectByUid (db pm) u of
              Some r \<Rightarrow>
                (let existingKey = c_str (row_key r); existingPaste = c_str (row_paste r)
                 in if existingPaste = paste
                    then (existingKey, pm\<lparr>db := snd (updateLastLogin (db pm) now u)\<rparr>)
                    else (case updatePasteKey (db pm) paste generatedKey now u of
                            (False, d') \<Rightarrow> ([], pm\<lparr>db := d'\<rparr>)
                          | (True, d') \<Rightarrow>
                              (generatedKey,
                               pm\<lparr>db := d',
                                  uidToKey := (uidToKey pm)(u \<mapsto> generatedKey),
                                  keyToUid :=
                                    ((keyToUid pm)(existingKey := None))
                                      (generatedKey \<mapsto> u)\<rparr>)))
            | None \<Rightarrow>
                (case insertPlayer (db pm) u paste generatedKey now of
                   (False, d') \<Rightarrow> ([], pm\<lparr>db := d'\<rparr>)
                 | (True, d') \<Rightarrow>
                     (generatedKey,
                      pm\<lparr>db := d',
                         uidToKey := (uidToKey pm)(u \<mapsto> generatedKey),
                         keyToUid := (keyToUid pm)(generatedKey \<mapsto> u)\<rparr>))))"

definition validateKey :: "PlayerManager \<Rightarrow> string \<Rightarrow> string option" where
  "validateKey pm k =
     (case keyToUid pm k of
        Some u \<Rightarrow> Some u
      | None \<Rightarrow> selectUidByKey (db pm) k)"

section \<open>Sample snakes, players, grids and managers\<close>

text \<open>\<open>Snake::move()\<close> discards the result of \<open>moveWithDelta\<close>.\<close>

definition move :: "Snake \<Rightarrow> error + Snake" where
  "move s = map_sum id snd (moveWithDelta s)"

text \<open>Steering a snake: for each direction, \<open>setDirection\<close> and then \<open>move\<close>.\<close>

fun steer :: "Direction list \<Rightarrow> Snake \<Rightarrow> error + Snake" where
  "steer [] s = Inr s"
| "steer (d # ds) s =
     (case move (setDirection d s) of Inl e \<Rightarrow> Inl e | Inr s' \<Rightarrow> steer ds s')"

text \<open>
  A snake of four cells around a square of the grid, about to step down onto the cell
  its tail leaves.
\<close>

definition tail_chaser :: Snake where
  "tail_chaser =
     \<lparr>blocks = [Point 0 0, Point 1 0, Point 1 1, Point 0 1],
      blockSet = {Point 0 0, Point 1 0, Point 1 1, Point 0 1},
      currentDirection = DOWN, invincibleRounds = 0, alive = True, growthPending = 0\<rparr>"

text \<open>The snake of scenario S1 of the specification, heading right.\<close>

definition straight :: Snake where
  "straight =
     \<lparr>blocks = [Point 3 3, Point 2 3, Point 1 3],
      blockSet = {Point 3 3, Point 2 3, Point 1 3},
      currentDirection = RIGHT, invincibleRounds = 0, alive = True, growthPending = 0\<rparr>"

definition player_A :: Player where
  "player_A =
     \<lparr>getUid = ''1001'', getId = ''A'', getName = ''a'', getColor = ''#FF0000'',
      getKey = ''ka'', getToken = ''ta'', getSnake = straight, isInGame = True\<rparr>"

text \<open>A second player, whose snake lies on the row below and is invincible.\<close>

definition player_B :: Player where
  "player_B =
     \<lparr>getUid = ''1002'', getId = ''B'', getName = ''b'', getColor = ''#00FF00'',
      getKey = ''kb'', getToken = ''tb'',
      getSnake = \<lparr>blocks = [Point 4 4, Point 5 4], blockSet = {Point 4 4, Point 5 4},
                   currentDirection = LEFT, invincibleRounds = 3, alive = True,
                   growthPending = 0\<rparr>,
      isInGame = True\<rparr>"

text \<open>
  A snake of target length five that has crossed its own chain while growing and has then
  moved on: the cell (1,1) is in its chain and no longer in its body set.
\<close>

definition crossed :: Snake where
  "crossed =
     \<lparr>blocks = [Point 1 0, Point 0 0, Point 0 1, Point 1 1, Point 1 2],
      blockSet = {Point 1 0, Point 0 0, Point 0 1, Point 1 2},
      currentDirection = DOWN, invincibleRounds = 0, alive = True, growthPending = 0\<rparr>"

text \<open>A snake whose head is in the last column that an \<open>int\<close> can number.\<close>

definition at_int_max :: Snake where
  "at_int_max =
     \<lparr>blocks = [Point 2147483647 0], blockSet = {Point 2147483647 0},
      currentDirection = RIGHT, invincibleRounds = 0, alive = True, growthPending = 0\<rparr>"

text \<open>A grid of ten by ten cells, and the grid of one cell.\<close>

definition arena :: MapManager where
  "arena = \<lparr>width = 10, height = 10\<rparr>"

definition unit_grid :: MapManager where
  "unit_grid = \<lparr>width = 1, height = 1\<rparr>"

text \<open>
  Two generators: one whose every draw is 0, and one whose draws count 0, 1, 2, ...
\<close>

definition zero_rng :: rng where
  "zero_rng k = 0"

definition counting_rng :: rng where
  "counting_rng k = k"

text \<open>
  The loop invariant of the food generators: every food made so far lies on a cell that
  passes the test \<open>ok\<close>, and no two of them lie on the same cell.
\<close>

definition cellsAccepted :: "(Point \<Rightarrow> bool) \<Rightarrow> Food list \<Rightarrow> bool" where
  "cellsAccepted ok fs \<longleftrightarrow>
     (\<forall>f \<in> set fs. ok (getPosition f)) \<and> distinct (map getPosition fs)"

text \<open>A player manager with a connected, empty table, and an identity check that accepts
  two pastes.\<close>

definition fresh_manager :: PlayerManager where
  "fresh_manager =
     \<lparr>db = \<lparr>connected = True, playersTable = []\<rparr>,
      uidToKey = Map.empty, keyToUid = Map.empty\<rparr>"

definition two_pastes :: "string \<Rightarrow> string \<Rightarrow> bool" where
  "two_pastes u paste \<longleftrightarrow> paste = ''pasteA'' \<or> paste = ''pasteB''"

section \<open>Direction\<close>

lemma toupper_toString: "map toupper (toString d) = toString d"
  by (cases d) (simp_all add: toupper_def)

lemma fromString_toString: "fromString (toString d) = Inr d"
  by (cases d) (simp_all add: fromString_def toupper_def)

lemma fromString_Inr_iff: "fromString s = Inr d \<longleftrightarrow> map toupper s = toString d"
  by (cases d) (auto simp: fromString_def Let_def)

lemma fromString_Inl_iff:
  "(\<exists>e. fromString s = Inl e) \<longleftrightarrow>
     map toupper s \<notin> {''UP'', ''DOWN'', ''LEFT'', ''RIGHT'', ''NONE''}"
  by (auto simp: fromString_def Let_def)

text \<open>
  C7.  Parsing a direction looks only at the upper-cased string: it yields the direction
  \<open>d\<close> exactly when the upper-cased string is the name of \<open>d\<close>, it fails (throws
  \<open>std::invalid_argument\<close>) exactly when the upper-cased string is none of the five
  names, and parsing the name printed for a direction gives the direction back.
\<close>

theorem fromString_total_on_names:
  "(fromString s = Inr d \<longleftrightarrow> map toupper s = toString d) \<and>
   ((\<exists>e. fromString s = Inl e) \<longleftrightarrow>
      map toupper s \<notin> {''UP'', ''DOWN'', ''LEFT'', ''RIGHT'', ''NONE''}) \<and>
   fromString (toString d) = Inr d"
  by (simp only: fromString_Inr_iff fromString_Inl_iff fromString_toString simp_thms)

theorem fromString_total_on_names_witness:
  "fromString ''Left'' = Inr LEFT \<and> (\<exists>e. fromString ''sideways'' = Inl e) \<and>
   fromString (toString DOWN) = Inr DOWN"
  using fromString_total_on_names [of "''Left''" LEFT]
    fromString_total_on_names [of "''sideways''" UP]
    fromString_total_on_names [of "''''" DOWN]
  by (simp add: toupper_def char_of_def)

section \<open>Snake\<close>

text \<open>
  C3.  \<open>setDirection D\<close> leaves the snake as it is when its direction is not \<open>NONE\<close>
  and \<open>D\<close> is the opposite of it, and stores \<open>D\<close> otherwise; so the stored direction
  is never the opposite of the previous direction when that was not \<open>NONE\<close>.  The
  opposite pairs are UP/DOWN and LEFT/RIGHT.
\<close>

theorem setDirection_no_reverse:
  "(currentDirection s \<noteq> NONE \<and> isOpposite (currentDirection s) D \<longrightarrow>
      setDirection D s = s) \<and>
   (\<not> (currentDirection s \<noteq> NONE \<and> isOpposite (currentDirection s) D) \<longrightarrow>
      setDirection D s = s\<lparr>currentDirection := D\<rparr>) \<and>
   \<not> (currentDirection s \<noteq> NONE \<and>
      isOpposite (currentDirection s) (currentDirection (setDirection D s))) \<and>
   (isOpposite a b \<longleftrightarrow> (a, b) \<in> {(UP, DOWN), (DOWN, UP), (LEFT, RIGHT), (RIGHT, LEFT)})"
  by (auto simp: setDirection_def isOpposite_def)

theorem setDirection_no_reverse_witness:
  "currentDirection (setDirection LEFT (tail_chaser\<lparr>currentDirection := RIGHT\<rparr>)) = RIGHT \<and>
   currentDirection (setDirection UP (tail_chaser\<lparr>currentDirection := RIGHT\<rparr>)) = UP \<and>
   currentDirection (setDirection LEFT (tail_chaser\<lparr>currentDirection := NONE\<rparr>)) = LEFT"
  using setDirection_no_reverse [of "tail_chaser\<lparr>currentDirection := RIGHT\<rparr>" LEFT UP UP]
    setDirection_no_reverse [of "tail_chaser\<lparr>currentDirection := RIGHT\<rparr>" UP UP UP]
    setDirection_no_reverse [of "tail_chaser\<lparr>currentDirection := NONE\<rparr>" LEFT UP UP]
  by (simp add: isOpposite_def)

lemma tail_chaser_reachable:
  "(case Snake_init (Point 0 1) 4 of
      Inl e \<Rightarrow> Inl e
    | Inr s0 \<Rightarrow> map_sum id (setDirection DOWN) (steer [RIGHT, UP, LEFT] s0)) = Inr tail_chaser"
  by (auto simp: Snake_init_def move_def moveWithDelta_def setDirection_def isOpposite_def
      tail_chaser_def Let_def INT_MAX_def INT_MIN_def)

lemma crossed_reachable:
  "(case Snake_init (Point 1 1) 5 of
      Inl e \<Rightarrow> Inl e
    | Inr s0 \<Rightarrow>
        map_sum id (setDirection DOWN) (steer [RIGHT, DOWN, LEFT, UP, LEFT, UP, RIGHT] s0)) =
   Inr crossed"
  by (auto simp: Snake_init_def move_def moveWithDelta_def setDirection_def isOpposite_def
      crossed_def Let_def INT_MAX_def INT_MIN_def)

lemma set_butlast_distinct:
  "distinct xs \<Longrightarrow> xs \<noteq> [] \<Longrightarrow> set (butlast xs) = set xs - {last xs}"
proof -
  assume d: "distinct xs" and ne: "xs \<noteq> []"
  from ne have xs: "xs = butlast xs @ [last xs]" by simp
  from d xs have "last xs \<notin> set (butlast xs)"
    by (metis disjoint_iff distinct_append list.set_intros(1))
  moreover from xs have "set xs = insert (last xs) (set (butlast xs))"
    by (metis Un_insert_right append_Nil2 list.simps(15) set_append)
  ultimately show ?thesis by auto
qed

lemma set_butlast_subset: "xs \<noteq> [] \<Longrightarrow> set xs - {last xs} \<subseteq> set (butlast xs)"
  by (metis Diff_subset_conv Un_commute append_butlast_last_id insert_is_Un list.simps(15) 
      set_append subset_refl empty_set)

lemma advance_moves: "d \<noteq> NONE \<Longrightarrow> advance d p = Inr q \<Longrightarrow> q \<noteq> p"
  by (cases d; cases p) (auto split: if_splits)

lemma advance_in_range:
  "INT_MIN < px p \<Longrightarrow> px p < INT_MAX \<Longrightarrow> INT_MIN < py p \<Longrightarrow> py p < INT_MAX \<Longrightarrow>
     \<exists>q. advance d p = Inr q"
  by (cases d) auto

lemma advance_Inr_iff: "(\<exists>q. advance d p = Inr q) \<longleftrightarrow> stepInRange d p"
  by (cases d) (auto simp: stepInRange_def)

text \<open>
  Every snake that the constructors and member functions produce has the shape
  \<open>snake_shape\<close>; in particular it is alive exactly when its chain is non-empty.
\<close>

lemma snake_shape_move:
  assumes "snake_shape s" and "moveWithDelta s = Inr (r, s')"
  shows "snake_shape s'"
proof (cases "alive s \<and> currentDirection s \<noteq> NONE")
  case False
  with assms(2) have "s' = s" by (auto simp: moveWithDelta_def split: if_splits)
  with assms(1) show ?thesis by simp
next
  case True
  with assms obtain h rest where b: "blocks s = h # rest"
    by (cases "blocks s") (auto simp: snake_shape_def)
  from assms(2) True b obtain nh where a: "advance (currentDirection s) h = Inr nh"
    by (cases "advance (currentDirection s) h") (auto simp: moveWithDelta_def)
  have sub: "set (blocks s) - {last (blocks s)} \<subseteq> set (butlast (blocks s))"
    using b by (intro set_butlast_subset) simp
  show ?thesis
  proof (cases "growthPending s > 0")
    case g: True
    with assms True b a show ?thesis
      by (auto simp: moveWithDelta_def snake_shape_def)
  next
    case g: False
    with assms(2) True b a have
      s': "s' = s\<lparr>blocks := nh # butlast (blocks s),
                  blockSet := insert nh (blockSet s - {last (blocks s)})\<rparr>"
      by (simp add: moveWithDelta_def Let_def)
    from assms(1) sub True show ?thesis
      unfolding s' snake_shape_def by auto
  qed
qed

lemma snake_reachable_shape: "snake_reachable s \<Longrightarrow> snake_shape s"
proof (induction rule: snake_reachable.induct)
  case reach_default
  then show ?case by (simp add: snake_shape_def Snake_default_def)
next
  case (reach_init initialHead initialLength s)
  then show ?case by (auto simp: snake_shape_def Snake_init_def split: if_splits)
next
  case (reach_move s r s')
  then show ?case by (auto intro: snake_shape_move)
next
  case (reach_grow s)
  then show ?case by (simp add: snake_shape_def grow_def)
next
  case (reach_setDirection s dir)
  then show ?case by (simp add: snake_shape_def setDirection_def)
next
  case (reach_setInvincibleRounds s rounds)
  then show ?case by (simp add: snake_shape_def setInvincibleRounds_def)
next
  case (reach_kill s)
  then show ?case by (simp add: snake_shape_def kill_def)
next
  case (reach_decreaseInvincibleRounds s)
  then show ?case by (simp add: snake_shape_def decreaseInvincibleRounds_def)
qed

lemma snake_reachable_alive: "snake_reachable s \<Longrightarrow> alive s \<longleftrightarrow> blocks s \<noteq> []"
  using snake_reachable_shape by (auto simp: snake_shape_def)

text \<open>
  C2, as stated, fails: a snake without pending growth whose new head is the cell of its
  tail (the snake \<open>tail_chaser\<close>, reached through the constructor, \<open>setDirection\<close> and
  \<open>move\<close> alone) performs the move, and the tail cell held before the move is in the
  body set after it.
\<close>

theorem moveWithDelta_tail_kept_counterexample:
  "snake_inv tail_chaser \<and> alive tail_chaser \<and> currentDirection tail_chaser \<noteq> NONE \<and>
   growthPending tail_chaser = 0 \<and> last (blocks tail_chaser) = Point 0 1 \<and>
   moveWithDelta tail_chaser =
     Inr (\<lparr>moved = True, newHead = Point 0 1, tailRemoved = True, removedTail = Point 0 1\<rparr>,
          \<lparr>blocks = [Point 0 1, Point 0 0, Point 1 0, Point 1 1],
           blockSet = {Point 0 1, Point 0 0, Point 1 0, Point 1 1},
           currentDirection = DOWN, invincibleRounds = 0, alive = True,
           growthPending = 0\<rparr>) \<and>
   Point 0 1 \<in> {Point 0 1, Point 0 0, Point 1 0, Point 1 1}"
  by (auto simp: tail_chaser_def snake_inv_def moveWithDelta_def Let_def INT_MAX_def)

text \<open>
  C2, amended.  An alive snake with a non-empty chain and a direction, whose step stays
  within the range of \<open>int\<close>, performs the move, and the new head is the head moved by
  one cell.  Without pending growth the chain drops its last cell and takes the new head,
  the body set loses the old tail cell and gains the new head, the length and the pending
  growth are unchanged, and the old tail cell is in the new body set exactly when the new
  head is that cell.  With pending growth no cell is removed, the new head is added, the
  length grows by one and the pending growth falls by one.
\<close>

theorem moveWithDelta_tail_and_growth:
  assumes "alive s" and "currentDirection s \<noteq> NONE" and "blocks s \<noteq> []"
    and "stepInRange (currentDirection s) (hd (blocks s))"
  shows "\<exists>r s'. moveWithDelta s = Inr (r, s') \<and> moved r \<and>
           advance (currentDirection s) (hd (blocks s)) = Inr (newHead r) \<and>
           (growthPending s \<le> 0 \<longrightarrow>
              tailRemoved r \<and> removedTail r = last (blocks s) \<and>
              blocks s' = newHead r # butlast (blocks s) \<and>
              blockSet s' = insert (newHead r) (blockSet s - {last (blocks s)}) \<and>
              getLength s' = getLength s \<and>
              growthPending s' = growthPending s \<and>
              (last (blocks s) \<in> blockSet s' \<longleftrightarrow> newHead r = last (blocks s))) \<and>
           (growthPending s > 0 \<longrightarrow>
              \<not> tailRemoved r \<and>
              blocks s' = newHead r # blocks s \<and>
              blockSet s' = insert (newHead r) (blockSet s) \<and>
              getLength s' = getLength s + 1 \<and>
              growthPending s' = growthPending s - 1)"
proof -
  from assms(3) obtain h rest where b: "blocks s = h # rest"
    by (cases "blocks s") auto
  from assms(4) b obtain nh where a: "advance (currentDirection s) h = Inr nh"
    using advance_Inr_iff [of "currentDirection s" h] by auto
  show ?thesis
  proof (cases "growthPending s > 0")
    case True
    with assms b a show ?thesis
      by (simp add: moveWithDelta_def getLength_def)
  next
    case False
    with assms b a show ?thesis
      by (auto simp: moveWithDelta_def getLength_def Let_def)
  qed
qed

theorem moveWithDelta_tail_and_growth_witness:
  "alive straight \<and> currentDirection straight \<noteq> NONE \<and> blocks straight \<noteq> [] \<and>
   stepInRange (currentDirection straight) (hd (blocks straight)) \<and>
   (\<exists>r s'. moveWithDelta straight = Inr (r, s') \<and>
      blocks s' = [Point 4 3, Point 3 3, Point 2 3] \<and> Point 1 3 \<notin> blockSet s') \<and>
   (\<exists>r s'. moveWithDelta (grow straight) = Inr (r, s') \<and>
      blocks s' = [Point 4 3, Point 3 3, Point 2 3, Point 1 3] \<and> growthPending s' = 0)"
proof -
  have h: "alive straight" "currentDirection straight \<noteq> NONE" "blocks straight \<noteq> []"
    "stepInRange (currentDirection straight) (hd (blocks straight))"
    by (simp_all add: straight_def stepInRange_def INT_MAX_def)
  have g: "alive (grow straight)" "currentDirection (grow straight) \<noteq> NONE"
    "blocks (grow straight) \<noteq> []"
    "stepInRange (currentDirection (grow straight)) (hd (blocks (grow straight)))"
    by (simp_all add: straight_def grow_def stepInRange_def INT_MAX_def)
  from moveWithDelta_tail_and_growth [OF h] have
    "\<exists>r s'. moveWithDelta straight = Inr (r, s') \<and>
       blocks s' = [Point 4 3, Point 3 3, Point 2 3] \<and> Point 1 3 \<notin> blockSet s'"
    by (auto simp: straight_def INT_MAX_def)
  moreover from moveWithDelta_tail_and_growth [OF g] have
    "\<exists>r s'. moveWithDelta (grow straight) = Inr (r, s') \<and>
       blocks s' = [Point 4 3, Point 3 3, Point 2 3, Point 1 3] \<and> growthPending s' = 0"
    by (auto simp: straight_def grow_def INT_MAX_def)
  ultimately show ?thesis using h by simp
qed

text \<open>
  Outside the hypotheses of the theorem: a step that leaves the range of \<open>int\<close> is
  undefined, and a snake that has not run over itself and whose new head does not collide
  with it loses its old tail cell from the body set.
\<close>

lemma moveWithDelta_overflow:
  "alive s \<Longrightarrow> currentDirection s \<noteq> NONE \<Longrightarrow> blocks s \<noteq> [] \<Longrightarrow>
   \<not> stepInRange (currentDirection s) (hd (blocks s)) \<Longrightarrow>
     moveWithDelta s = Inl UndefinedBehaviour"
  by (cases "blocks s"; cases "currentDirection s")
     (auto simp: moveWithDelta_def stepInRange_def)

lemma moveWithDelta_at_int_max: "moveWithDelta at_int_max = Inl UndefinedBehaviour"
  by (simp add: at_int_max_def moveWithDelta_def INT_MAX_def)

lemma moveWithDelta_tail_absent:
  assumes inv: "snake_inv s" and al: "alive s" and dir: "currentDirection s \<noteq> NONE"
    and gp: "growthPending s \<le> 0"
    and mv: "moveWithDelta s = Inr (r, s')"
    and cs: "\<not> collidesWithSelf s (newHead r)"
  shows "last (blocks s) \<notin> blockSet s'"
proof -
  from inv al obtain h rest where b: "blocks s = h # rest"
    by (cases "blocks s") (auto simp: snake_inv_def)
  from inv have bs: "blockSet s = set (blocks s)" by (simp add: snake_inv_def)
  from mv al dir b obtain nh where a: "advance (currentDirection s) h = Inr nh"
    by (cases "advance (currentDirection s) h") (auto simp: moveWithDelta_def)
  from mv al dir b a gp have r: "newHead r = nh"
    and s': "blockSet s' = insert nh (blockSet s - {last (blocks s)})"
    by (auto simp: moveWithDelta_def Let_def)
  have nh: "nh \<noteq> h" using dir a by (rule advance_moves)
  have "nh \<noteq> last (blocks s)"
  proof (cases rest)
    case Nil
    with b nh show ?thesis by simp
  next
    case (Cons x xs)
    with cs r b bs nh have "nh \<notin> set (blocks s)"
      by (simp add: collidesWithSelf_def)
    moreover have "last (blocks s) \<in> set (blocks s)" using b by simp
    ultimately show ?thesis by metis
  qed
  with s' show ?thesis by simp
qed

text \<open>
  C9.  \<open>moveWithDelta\<close> on a snake that is not alive reports no move and returns the
  snake as it was (chain, body set, direction and pending growth included); \<open>kill\<close>
  after \<open>kill\<close> is \<open>kill\<close>, and a killed snake is not alive and has an empty chain and
  an empty body set.
\<close>

theorem dead_snake_noops:
  "(\<not> alive s \<longrightarrow> moveWithDelta s = Inr (MoveResult_default, s)) \<and>
   \<not> moved MoveResult_default \<and>
   kill (kill s) = kill s \<and>
   \<not> alive (kill s) \<and> blocks (kill s) = [] \<and> blockSet (kill s) = {}"
  by (simp add: moveWithDelta_def kill_def MoveResult_default_def)

theorem dead_snake_noops_witness:
  "\<not> alive (kill straight) \<and>
   moveWithDelta (kill straight) = Inr (MoveResult_default, kill straight) \<and>
   currentDirection (kill straight) = RIGHT \<and>
   kill (kill straight) = kill straight"
  using dead_snake_noops [of "kill straight"] dead_snake_noops [of straight]
  by (simp add: kill_def straight_def)

section \<open>World state\<close>

lemma distinct_map_nth_neq:
  "distinct (map f xs) \<Longrightarrow> i < length xs \<Longrightarrow> j < length xs \<Longrightarrow> i \<noteq> j \<Longrightarrow> f (xs ! i) \<noteq> f (xs ! j)"
  by (metis distinct_conv_nth length_map nth_map)

lemma food_inv_init: "food_inv GameState_init"
  by (simp add: food_inv_def GameState_init_def)

lemma food_inv_clearFood: "food_inv (clearFood s)"
  by (simp add: food_inv_def clearFood_def)

lemma food_inv_addFood:
  assumes "food_inv s"
  shows "food_inv (addFood f s)"
proof (cases "getPosition f \<in> foodSet s")
  case True
  with assms show ?thesis by (simp add: addFood_def)
next
  case False
  with assms have nin: "getPosition f \<notin> getPosition ` set (foods s)"
    by (simp add: food_inv_def)
  have "\<forall>i < length (foods s @ [f]).
          ((foodIndex s)(getPosition f \<mapsto> length (foods s)))
            (getPosition ((foods s @ [f]) ! i)) = Some i"
  proof (intro allI impI)
    fix i assume "i < length (foods s @ [f])"
    then consider "i < length (foods s)" | "i = length (foods s)" by fastforce
    then show "((foodIndex s)(getPosition f \<mapsto> length (foods s)))
                 (getPosition ((foods s @ [f]) ! i)) = Some i"
    proof cases
      case 1
      then have "getPosition (foods s ! i) \<noteq> getPosition f"
        using nin by (metis image_eqI nth_mem)
      with 1 assms show ?thesis by (simp add: nth_append food_inv_def)
    next
      case 2
      then show ?thesis by simp
    qed
  qed
  with False assms nin show ?thesis
    by (simp add: addFood_def food_inv_def Let_def)
qed

lemma swap_pop_positions:
  assumes d: "distinct ps" and i: "Suc i < length ps"
  shows "distinct ((butlast ps)[i := last ps])"
    and "set ((butlast ps)[i := last ps]) = set ps - {ps ! i}"
proof -
  from i have ne: "ps \<noteq> []" by auto
  define qs where "qs = butlast ps"
  define l where "l = last ps"
  from ne have ps: "ps = qs @ [l]" by (simp add: qs_def l_def)
  from d ps have dq: "distinct qs" and lq: "l \<notin> set qs" by auto
  from i ps have iq: "i < length qs" by simp
  from iq ps have pi: "ps ! i = qs ! i" by (simp add: nth_append)
  show "distinct ((butlast ps)[i := last ps])"
    unfolding qs_def [symmetric] l_def [symmetric]
    using dq lq by (simp add: distinct_list_update)
  have "set (qs[i := l]) = insert l (set qs - {qs ! i})"
    using dq iq by (rule set_update_distinct)
  moreover have "set ps = insert l (set qs)" using ps by simp
  moreover have "qs ! i \<in> set qs" using iq by simp
  ultimately show "set ((butlast ps)[i := last ps]) = set ps - {ps ! i}"
    unfolding qs_def [symmetric] l_def [symmetric] using lq pi by auto
qed

lemma food_inv_index:
  assumes "food_inv s" and "foodIndex s p = Some i"
  shows "i < length (foods s) \<and> getPosition (foods s ! i) = p"
proof -
  from assms have "p \<in> getPosition ` set (foods s)"
    by (auto simp: food_inv_def)
  then obtain j where j: "j < length (foods s)" "getPosition (foods s ! j) = p"
    by (auto simp: in_set_conv_nth)
  with assms have "foodIndex s p = Some j" by (auto simp: food_inv_def)
  with assms(2) j show ?thesis by simp
qed

lemma food_inv_removeFood:
  assumes inv: "food_inv s"
  shows "\<exists>s'. removeFood p s = Inr s' \<and> food_inv s' \<and> foodSet s' = foodSet s - {p}"
proof (cases "foodIndex s p")
  case None
  with inv have "p \<notin> foodSet s" by (auto simp: food_inv_def)
  with None inv show ?thesis by (simp add: removeFood_def)
next
  case (Some i)
  let ?fs = "foods s"
  let ?n = "length ?fs"
  let ?ps = "map getPosition ?fs"
  from food_inv_index [OF inv Some] have i: "i < ?n" and pi: "getPosition (?fs ! i) = p"
    by simp_all
  from i have n0: "?n \<noteq> 0" and ne: "?fs \<noteq> []" by auto
  then have lastI: "size_minus_one ?n = ?n - 1" by (simp add: size_minus_one_def)
  from inv have d: "distinct ?ps" and fset: "foodSet s = set ?ps"
    and dm: "dom (foodIndex s) = foodSet s"
    and ix: "\<And>k. k < ?n \<Longrightarrow> foodIndex s (?ps ! k) = Some k"
    by (auto simp: food_inv_def)
  have psi: "?ps ! i = p" using i pi by simp
  show ?thesis
  proof (cases "i = ?n - 1")
    case True
    have rf: "removeFood p s =
        Inr (s\<lparr>foods := butlast ?fs, foodSet := foodSet s - {p},
                foodIndex := (foodIndex s)(p := None)\<rparr>)"
      using Some True lastI ne by (simp add: removeFood_def Let_def)
    have lp: "last ?ps = p" using True psi ne by (simp add: last_conv_nth)
    have mb: "map getPosition (butlast ?fs) = butlast ?ps" by (simp add: map_butlast)
    have "set (butlast ?ps) = set ?ps - {p}"
      using set_butlast_distinct [OF d] ne lp by simp
    then have s1: "getPosition ` set (butlast ?fs) = foodSet s - {p}"
      using fset mb by (metis list.set_map)
    have d1: "distinct (map getPosition (butlast ?fs))"
      unfolding mb using d by (rule distinct_butlast)
    have i1: "\<forall>k < length (butlast ?fs).
                ((foodIndex s)(p := None)) (getPosition (butlast ?fs ! k)) = Some k"
    proof (intro allI impI)
      fix k assume k: "k < length (butlast ?fs)"
      then have kn: "k < ?n" and ki: "k \<noteq> i" using True by auto
      have "getPosition (?fs ! k) \<noteq> getPosition (?fs ! i)"
        using d kn i ki by (rule distinct_map_nth_neq)
      with pi ix [OF kn] k kn
      show "((foodIndex s)(p := None)) (getPosition (butlast ?fs ! k)) = Some k"
        by (simp add: nth_butlast)
    qed
    from s1 d1 i1 dm show ?thesis
      unfolding rf by (simp add: food_inv_def)
  next
    case False
    with i have si: "Suc i < ?n" by simp
    let ?sw = "?fs[i := ?fs ! (?n - 1), ?n - 1 := ?fs ! i]"
    have swi: "?sw ! i = ?fs ! (?n - 1)" using False i by simp
    have bl: "butlast ?sw = (butlast ?fs)[i := last ?fs]"
      using False ne by (simp add: butlast_list_update last_conv_nth)
    let ?fi = "((foodIndex s)(getPosition (?fs ! (?n - 1)) \<mapsto> i))(p := None)"
    have rf: "removeFood p s =
        Inr (s\<lparr>foods := (butlast ?fs)[i := last ?fs], foodSet := foodSet s - {p},
                foodIndex := ?fi\<rparr>)"
      using Some False lastI i n0 swi bl by (simp add: removeFood_def Let_def)
    have mp: "map getPosition ((butlast ?fs)[i := last ?fs]) = (butlast ?ps)[i := last ?ps]"
      using ne by (simp add: map_update map_butlast last_map)
    have lps: "last ?ps = getPosition (?fs ! (?n - 1))"
      using ne by (simp add: last_map last_conv_nth)
    have lne: "last ?ps \<noteq> p"
    proof -
      have "?n - 1 < ?n" using n0 by simp
      with d have "getPosition (?fs ! (?n - 1)) \<noteq> getPosition (?fs ! i)"
        using i False by (intro distinct_map_nth_neq) auto
      with pi lps show ?thesis by simp
    qed
    have d2: "distinct ((butlast ?ps)[i := last ?ps])"
      and s2: "set ((butlast ?ps)[i := last ?ps]) = set ?ps - {p}"
      using swap_pop_positions [OF d, of i] si psi by simp_all
    have ldom: "last ?ps \<in> dom (foodIndex s)"
      using dm fset ne by (metis last_in_set map_is_Nil_conv)
    have dm2: "dom ?fi = foodSet s - {p}"
      using dm ldom lps by auto
    have i2: "\<forall>k < length ((butlast ?fs)[i := last ?fs]).
                ?fi (getPosition ((butlast ?fs)[i := last ?fs] ! k)) = Some k"
    proof (intro allI impI)
      fix k assume "k < length ((butlast ?fs)[i := last ?fs])"
      then have k: "Suc k < ?n" by simp
      show "?fi (getPosition ((butlast ?fs)[i := last ?fs] ! k)) = Some k"
      proof (cases "k = i")
        case True
        with k lne lps ne show ?thesis by (simp add: last_conv_nth)
      next
        case kf: False
        from k have kn: "k < ?n" by simp
        have a: "getPosition (?fs ! k) \<noteq> getPosition (?fs ! i)"
          using d kn i kf by (rule distinct_map_nth_neq)
        have b: "getPosition (?fs ! k) \<noteq> getPosition (?fs ! (?n - 1))"
          using d kn k by (intro distinct_map_nth_neq) auto
        from a b pi kf k kn ix [OF kn] n0 show ?thesis
          by (simp add: nth_butlast)
      qed
    qed
    have s3: "getPosition ` set ((butlast ?fs)[i := last ?fs]) = foodSet s - {p}"
      using s2 mp fset by (metis list.set_map)
    have d3: "distinct (map getPosition ((butlast ?fs)[i := last ?fs]))"
      unfolding mp by (rule d2)
    from d3 s3 dm2 i2 show ?thesis
      unfolding rf by (simp add: food_inv_def)
  qed
qed

lemma food_inv_run_without_reset:
  "food_inv s \<Longrightarrow> Reset \<notin> set ops \<Longrightarrow> \<exists>s'. run_food_ops ops s = Inr s' \<and> food_inv s'"
proof (induction ops arbitrary: s)
  case Nil
  then show ?case by simp
next
  case (Cons x xs)
  have "\<exists>s1. apply_food_op x s = Inr s1 \<and> food_inv s1"
  proof (cases x)
    case (AddFood f)
    with Cons.prems show ?thesis by (simp add: food_inv_addFood)
  next
    case (RemoveFood p)
    with food_inv_removeFood [OF Cons.prems(1), of p] show ?thesis by auto
  next
    case ClearFood
    then show ?thesis by (simp add: food_inv_clearFood)
  next
    case Reset
    with Cons.prems show ?thesis by simp
  qed
  then obtain s1 where s1: "apply_food_op x s = Inr s1" "food_inv s1" by blast
  with Cons.IH [of s1] Cons.prems show ?case by simp
qed

lemma food_inv_hasFoodAt:
  "food_inv s \<Longrightarrow> hasFoodAt s p \<longleftrightarrow> (\<exists>f \<in> set (foods s). getPosition f = p)"
  by (auto simp: food_inv_def hasFoodAt_def)

text \<open>
  C4, as stated, fails: \<open>addFood\<close> on a state without food at the position records
  nothing in the delta log.
\<close>

theorem addFood_records_no_delta_counterexample:
  "\<not> hasFoodAt GameState_init (Point 1 1) \<and>
   foods (addFood (Food (Point 1 1)) GameState_init) = [Food (Point 1 1)] \<and>
   Point 1 1 \<notin> set (addedFoods (addFood (Food (Point 1 1)) GameState_init))"
  by (simp add: addFood_def GameState_init_def hasFoodAt_def Let_def)

text \<open>
  C4, amended.  \<open>addFood\<close> at a position that already has food changes nothing.  At a
  position without food it appends the food to the vector, adds the position to the food
  set and maps the position to the index of the new last element, and it leaves the delta
  log as it was.  Recording the position in \<open>added_food\<close> is the separate operation
  \<open>trackFoodAdded\<close>, which appends it and changes nothing else.
\<close>

theorem addFood_effect:
  "(hasFoodAt s pos \<longrightarrow> addFood (Food pos) s = s) \<and>
   (\<not> hasFoodAt s pos \<longrightarrow>
      addFood (Food pos) s =
        s\<lparr>foods := foods s @ [Food pos],
          foodSet := insert pos (foodSet s),
          foodIndex := (foodIndex s)(pos \<mapsto> length (foods s))\<rparr>) \<and>
   addedFoods (addFood (Food pos) s) = addedFoods s \<and>
   trackFoodAdded pos s = s\<lparr>addedFoods := addedFoods s @ [pos]\<rparr>"
  by (simp add: addFood_def hasFoodAt_def trackFoodAdded_def Let_def)

theorem addFood_effect_witness:
  "\<not> hasFoodAt GameState_init (Point 4 3) \<and>
   hasFoodAt (addFood (Food (Point 4 3)) GameState_init) (Point 4 3) \<and>
   foodIndex (addFood (Food (Point 4 3)) GameState_init) (Point 4 3) = Some 0 \<and>
   addFood (Food (Point 4 3)) (addFood (Food (Point 4 3)) GameState_init) =
     addFood (Food (Point 4 3)) GameState_init \<and>
   addedFoods (trackFoodAdded (Point 4 3) (addFood (Food (Point 4 3)) GameState_init)) =
     [Point 4 3]"
  using addFood_effect [of GameState_init "Point 4 3"]
    addFood_effect [of "addFood (Food (Point 4 3)) GameState_init" "Point 4 3"]
  by (simp add: hasFoodAt_def GameState_init_def trackFoodAdded_def)

text \<open>
  C8 does not hold of the code: \<open>reset\<close> empties the food vector and leaves the food
  set and the index map as they were (\<open>clearFood\<close> empties all three).  After one food is
  added and the state is reset, the vector is empty while \<open>hasFoodAt\<close> still answers
  true at the position and the index map still sends it to index 0.
\<close>

theorem reset_leaves_food_set_and_index:
  "run_food_ops [AddFood (Food (Point 1 1)), Reset] GameState_init =
     Inr \<lparr>currentRound = 0, players = [], foods = [], foodSet = {Point 1 1},
          foodIndex = [Point 1 1 \<mapsto> 0], timestamp = 0, nextRoundTimestamp = 0,
          joinedPlayers = [], diedPlayers = [], addedFoods = [], removedFoods = []\<rparr> \<and>
   hasFoodAt
     \<lparr>currentRound = 0, players = [], foods = [], foodSet = {Point 1 1},
      foodIndex = [Point 1 1 \<mapsto> 0], timestamp = 0, nextRoundTimestamp = 0,
      joinedPlayers = [], diedPlayers = [], addedFoods = [], removedFoods = []\<rparr>
     (Point 1 1) \<and>
   run_food_ops [AddFood (Food (Point 1 1)), ClearFood] GameState_init = Inr GameState_init"
  by (simp add: addFood_def reset_def clearFood_def clearDeltaTracking_def
      GameState_init_def hasFoodAt_def Let_def)

lemma after_reset_not_food_inv:
  "run_food_ops [AddFood (Food (Point 1 1)), Reset] GameState_init = Inr s \<Longrightarrow> \<not> food_inv s"
  by (auto simp: addFood_def reset_def clearDeltaTracking_def GameState_init_def
      food_inv_def Let_def)

lemma after_reset_addFood_is_lost:
  "run_food_ops [AddFood (Food (Point 1 1)), Reset, AddFood (Food (Point 1 1))]
     GameState_init =
   run_food_ops [AddFood (Food (Point 1 1)), Reset] GameState_init"
  by (simp add: addFood_def reset_def clearDeltaTracking_def GameState_init_def Let_def)

lemma after_reset_removeFood_is_undefined:
  "run_food_ops [AddFood (Food (Point 1 1)), Reset, RemoveFood (Point 1 1)] GameState_init =
     Inl UndefinedBehaviour"
  by (simp add: addFood_def reset_def clearDeltaTracking_def GameState_init_def
      removeFood_def size_minus_one_def Let_def)

text \<open>
  C10.  \<open>removeFood\<close> at a position without food returns the state unchanged, whether
  "without food" is read off the index map (as the code does), off \<open>hasFoodAt\<close> or off
  the food vector of a consistent state; \<open>removePlayer\<close> with an id that no listed
  player has returns the state unchanged.
\<close>

theorem absent_removals_change_nothing:
  "(foodIndex s pos = None \<longrightarrow> removeFood pos s = Inr s) \<and>
   (food_inv s \<and> \<not> hasFoodAt s pos \<longrightarrow> removeFood pos s = Inr s) \<and>
   (food_inv s \<and> pos \<notin> getPosition ` set (foods s) \<longrightarrow> removeFood pos s = Inr s) \<and>
   ((\<forall>p \<in> set (players s). \<not> hasId playerId p) \<longrightarrow> removePlayer playerId s = s)"
proof -
  have a: "foodIndex s pos = None \<Longrightarrow> removeFood pos s = Inr s"
    by (simp add: removeFood_def)
  have b: "food_inv s \<Longrightarrow> \<not> hasFoodAt s pos \<Longrightarrow> foodIndex s pos = None"
    by (auto simp: food_inv_def hasFoodAt_def)
  have c: "food_inv s \<Longrightarrow> pos \<notin> getPosition ` set (foods s) \<Longrightarrow> foodIndex s pos = None"
    by (auto simp: food_inv_def)
  have d: "(\<forall>p \<in> set (players s). \<not> hasId playerId p) \<Longrightarrow> removePlayer playerId s = s"
    by (simp add: removePlayer_def)
  show ?thesis
  proof (intro conjI impI)
    assume "foodIndex s pos = None"
    then show "removeFood pos s = Inr s" by (rule a)
  next
    assume "food_inv s \<and> \<not> hasFoodAt s pos"
    then show "removeFood pos s = Inr s" using a b by simp
  next
    assume "food_inv s \<and> pos \<notin> getPosition ` set (foods s)"
    then show "removeFood pos s = Inr s" using a c by simp
  next
    assume "\<forall>p \<in> set (players s). \<not> hasId playerId p"
    then show "removePlayer playerId s = s" by (rule d)
  qed
qed

theorem absent_removals_change_nothing_witness:
  "foodIndex (addPlayer (Some player_A) (addFood (Food (Point 4 3)) GameState_init))
     (Point 0 0) = None \<and>
   removeFood (Point 0 0) (addPlayer (Some player_A) (addFood (Food (Point 4 3)) GameState_init)) =
     Inr (addPlayer (Some player_A) (addFood (Food (Point 4 3)) GameState_init)) \<and>
   players (addPlayer (Some player_A) (addFood (Food (Point 4 3)) GameState_init)) =
     [Some player_A] \<and>
   removePlayer ''B'' (addPlayer (Some player_A) (addFood (Food (Point 4 3)) GameState_init)) =
     addPlayer (Some player_A) (addFood (Food (Point 4 3)) GameState_init)"
proof -
  let ?w = "addPlayer (Some player_A) (addFood (Food (Point 4 3)) GameState_init)"
  have i: "foodIndex ?w (Point 0 0) = None"
    by (simp add: addPlayer_def addFood_def GameState_init_def Let_def)
  have p: "players ?w = [Some player_A]"
    by (simp add: addPlayer_def addFood_def GameState_init_def Let_def)
  have h: "\<forall>q \<in> set (players ?w). \<not> hasId ''B'' q"
    unfolding p by (simp add: hasId_def player_A_def)
  from absent_removals_change_nothing [of ?w "Point 0 0" "''B''"] i p h
  show ?thesis by simp
qed

section \<open>Collision classification\<close>

lemma hitsOtherSnake_iff:
  "hitsOtherSnake player newPos ps \<longleftrightarrow> otherLiveSnakeAt player newPos ps"
  by (induction player newPos ps rule: hitsOtherSnake.induct)
     (auto simp: otherLiveSnakeAt_def collidesWithBody_def)

lemma hitsOtherSnake_invincible:
  "hitsOtherSnake (withInvincible k player) newPos
     (map (map_option (\<lambda>q. withInvincible (f q) q)) ps) =
   hitsOtherSnake player newPos ps"
  by (induction player newPos ps rule: hitsOtherSnake.induct)
     (simp_all add: withInvincible_def setInvincibleRounds_def collidesWithBody_def)

lemma collidesWithSelf_iff: "collidesWithSelf s p \<longleftrightarrow> p \<in> ownBodyCells s"
  by (auto simp: collidesWithSelf_def ownBodyCells_def)

text \<open>
  C1.  For every player, position and list of players, \<open>checkCollision\<close> is the
  classification of the specification: WALL when the new head position is out of bounds;
  otherwise SELF when the player's own body cells other than the head contain it;
  otherwise OTHER_SNAKE when the body set of some other live, in-game snake contains it;
  otherwise none.  The result stays the same when the invincibility counters of the
  player and of all listed players are set to arbitrary values.
\<close>

theorem checkCollision_priority:
  "checkCollision m player newPos allPlayers = classify_spec m player newPos allPlayers \<and>
   checkCollision m (withInvincible k player) newPos
     (map (map_option (\<lambda>q. withInvincible (f q) q)) allPlayers) =
     checkCollision m player newPos allPlayers"
proof
  show "checkCollision m player newPos allPlayers =
      classify_spec m player newPos allPlayers"
    by (simp add: checkCollision_def classify_spec_def isOutOfBounds_def
        isValidPosition_def hitsOtherSnake_iff collidesWithSelf_iff)
next
  have "collidesWithSelf (getSnake (withInvincible k player)) newPos =
      collidesWithSelf (getSnake player) newPos"
    by (simp add: withInvincible_def setInvincibleRounds_def collidesWithSelf_def)
  then show "checkCollision m (withInvincible k player) newPos
     (map (map_option (\<lambda>q. withInvincible (f q) q)) allPlayers) =
     checkCollision m player newPos allPlayers"
    by (simp add: checkCollision_def hitsOtherSnake_invincible)
qed

theorem checkCollision_priority_witness:
  "checkCollision arena player_A (Point 10 3) [Some player_A, None, Some player_B] = WALL \<and>
   checkCollision arena player_A (Point 2 3) [Some player_A, None, Some player_B] = SELF \<and>
   checkCollision arena player_A (Point 4 4) [Some player_A, None, Some player_B] = OTHER_SNAKE \<and>
   checkCollision arena player_A (Point 4 3) [Some player_A, None, Some player_B] = NO_COLLISION \<and>
   checkCollision arena (withInvincible 5 player_A) (Point 4 4)
     [Some (withInvincible 5 player_A), None, Some (withInvincible 0 player_B)] = OTHER_SNAKE"
proof -
  let ?ps = "[Some player_A, None, Some player_B]"
  have s: "classify_spec arena player_A (Point 10 3) ?ps = WALL"
    "classify_spec arena player_A (Point 2 3) ?ps = SELF"
    "classify_spec arena player_A (Point 4 4) ?ps = OTHER_SNAKE"
    "classify_spec arena player_A (Point 4 3) ?ps = NO_COLLISION"
    by (simp_all add: classify_spec_def ownBodyCells_def otherLiveSnakeAt_def arena_def
        player_A_def player_B_def straight_def)
  from checkCollision_priority [of arena player_A "Point 10 3" ?ps]
    checkCollision_priority [of arena player_A "Point 2 3" ?ps]
    checkCollision_priority [of arena player_A "Point 4 3" ?ps]
    checkCollision_priority [of arena player_A "Point 4 4" ?ps 5
      "\<lambda>q. if getId q = ''A'' then 5 else 0"]
    s
  show ?thesis by (simp add: player_A_def player_B_def)
qed

text \<open>
  The body cells are read off the body set.  For every snake that the class can hold,
  they are the body set without the head cell; for a snake that has not run over itself
  they are the cells of the chain behind the head.  The body set and the chain differ for
  the snake \<open>crossed\<close>: its next head (1,1) is a cell of its chain that its body set
  has lost, and the classification finds no collision there.
\<close>

lemma ownBodyCells_reachable:
  assumes "snake_reachable s"
  shows "ownBodyCells s = blockSet s - set (take 1 (blocks s))"
proof -
  from assms have sh: "blockSet s \<subseteq> set (blocks s)"
    using snake_reachable_shape by (auto simp: snake_shape_def)
  show ?thesis
  proof (cases "blocks s")
    case Nil
    with sh show ?thesis by (simp add: ownBodyCells_def)
  next
    case (Cons h rest)
    with sh show ?thesis by (cases rest) (auto simp: ownBodyCells_def)
  qed
qed

lemma ownBodyCells_tl:
  assumes "blockSet s = set (blocks s)" and "distinct (blocks s)"
  shows "ownBodyCells s = set (tl (blocks s))"
proof (cases "blocks s")
  case Nil
  then show ?thesis by (simp add: ownBodyCells_def)
next
  case (Cons a rest)
  with assms show ?thesis by (cases rest) (auto simp: ownBodyCells_def)
qed

lemma checkCollision_reads_body_set:
  "Point 1 1 \<in> set (blocks crossed) \<and> Point 1 1 \<notin> blockSet crossed \<and>
   advance (currentDirection crossed) (hd (blocks crossed)) = Inr (Point 1 1) \<and>
   checkCollision arena (player_A\<lparr>getSnake := crossed\<rparr>) (Point 1 1)
     [Some (player_A\<lparr>getSnake := crossed\<rparr>)] = NO_COLLISION"
  by (simp add: crossed_def checkCollision_def isOutOfBounds_def isValidPosition_def
      arena_def collidesWithSelf_def player_A_def INT_MAX_def)

section \<open>Food generation\<close>

lemma attemptFast_Some:
  "attemptFast n m g occ ex gen k = (Some c, k') \<Longrightarrow>
     isValidPosition m c \<and> c \<notin> ex \<and> c \<notin> gen \<and> occ c = None"
  by (induction n arbitrary: k) (auto split: prod.splits if_splits)

lemma foodLoopFast_accepted:
  "foodLoopFast n m g occ ex fs gen k = (fs', k') \<Longrightarrow>
   cellsAccepted (\<lambda>c. isValidPosition m c \<and> c \<notin> ex \<and> occ c = None) fs \<Longrightarrow>
   getPosition ` set fs \<subseteq> gen \<Longrightarrow>
     cellsAccepted (\<lambda>c. isValidPosition m c \<and> c \<notin> ex \<and> occ c = None) fs' \<and>
     length fs' \<le> length fs + n"
proof (induction n arbitrary: fs gen k)
  case 0
  then show ?case by simp
next
  case (Suc n)
  obtain r k1 where a: "attemptFast 100 m g occ ex gen k = (r, k1)"
    by (cases "attemptFast 100 m g occ ex gen k")
  show ?case
  proof (cases r)
    case None
    with a Suc.prems(1) have "foodLoopFast n m g occ ex fs gen k1 = (fs', k')" by simp
    from Suc.IH [OF this Suc.prems(2,3)] show ?thesis by simp
  next
    case (Some c)
    with a Suc.prems(1) have
      l: "foodLoopFast n m g occ ex (fs @ [Food c]) (insert c gen) k1 = (fs', k')" by simp
    from a Some have c: "isValidPosition m c" "c \<notin> ex" "c \<notin> gen" "occ c = None"
      using attemptFast_Some by blast+
    from c Suc.prems(2,3) have acc:
      "cellsAccepted (\<lambda>c. isValidPosition m c \<and> c \<notin> ex \<and> occ c = None)
         (fs @ [Food c])"
      by (auto simp: cellsAccepted_def)
    from Suc.prems(3) have sub: "getPosition ` set (fs @ [Food c]) \<subseteq> insert c gen"
      by auto
    from Suc.IH [OF l acc sub] show ?thesis by simp
  qed
qed

lemma cappedCount_cases:
  "cappedCount m count =
     (if count > width m * height m div 2 then max 1 (width m * height m div 2) else count)"
  by (simp add: cappedCount_def Let_def)

text \<open>
  C5, as stated, fails on the grid of one cell: half of the cells is 0, a request of one
  food exceeds it, and the generator still returns one food.
\<close>

theorem generateFoodFast_cap_counterexample:
  "1 > width unit_grid * height unit_grid div 2 \<and>
   width unit_grid * height unit_grid div 2 = 0 \<and>
   generateFoodFast unit_grid zero_rng 0 1 Map.empty {} = Inr ([Food (Point 0 0)], 2)"
proof -
  have "generateFoodFast unit_grid zero_rng 0 1 Map.empty {} = Inr ([Food (Point 0 0)], 2)"
    by code_simp
  then show ?thesis by (simp add: unit_grid_def)
qed

text \<open>
  C5, amended.  When the number of cells fits an \<open>int\<close>, the fast food generator
  returns, and each returned cell is in bounds, outside the existing-food set, not a key
  of the occupancy index, and different from the other returned cells.  It returns at
  most the requested number of foods; a request above half of the cells is cut to
  \<open>max 1 (W * H div 2)\<close>, which is half of the cells on every grid of two or more cells.
\<close>

theorem generateFoodFast_cells:
  assumes "width m * height m \<le> INT_MAX"
  shows "\<exists>fs k'. generateFoodFast m g k count occupiedCounts existingFoods = Inr (fs, k') \<and>
           (\<forall>f \<in> set fs. isValidPosition m (getPosition f) \<and>
              getPosition f \<notin> existingFoods \<and> occupiedCounts (getPosition f) = None) \<and>
           distinct (map getPosition fs) \<and>
           int (length fs) \<le> max 0 count \<and>
           (count > width m * height m div 2 \<longrightarrow>
              int (length fs) \<le> max 1 (width m * height m div 2)) \<and>
           (count > width m * height m div 2 \<and> 2 \<le> width m * height m \<longrightarrow>
              int (length fs) \<le> width m * height m div 2)"
proof (cases "count \<le> 0 \<or> width m \<le> 0 \<or> height m \<le> 0")
  case True
  then show ?thesis by (auto simp: generateFoodFast_def)
next
  case False
  obtain fs k' where l: "foodLoopFast (nat (cappedCount m count)) m g occupiedCounts
      existingFoods [] {} k = (fs, k')"
    by (cases "foodLoopFast (nat (cappedCount m count)) m g occupiedCounts
      existingFoods [] {} k")
  have "cellsAccepted
          (\<lambda>c. isValidPosition m c \<and> c \<notin> existingFoods \<and> occupiedCounts c = None) []"
    by (simp add: cellsAccepted_def)
  from foodLoopFast_accepted [OF l this] have
    acc: "cellsAccepted
            (\<lambda>c. isValidPosition m c \<and> c \<notin> existingFoods \<and> occupiedCounts c = None) fs"
    and len: "length fs \<le> nat (cappedCount m count)" by simp_all
  from False have pos: "0 < count" by simp
  then have cc: "0 < cappedCount m count" by (auto simp: cappedCount_cases)
  from len cc have li: "int (length fs) \<le> cappedCount m count" by linarith
  have gf: "generateFoodFast m g k count occupiedCounts existingFoods = Inr (fs, k')"
    using False assms l by (simp add: generateFoodFast_def)
  have b1: "int (length fs) \<le> max 0 count"
    using li pos by (auto simp: cappedCount_cases split: if_splits)
  have b2: "count > width m * height m div 2 \<longrightarrow>
      int (length fs) \<le> max 1 (width m * height m div 2)"
    using li by (auto simp: cappedCount_cases)
  have b3: "count > width m * height m div 2 \<and> 2 \<le> width m * height m \<longrightarrow>
      int (length fs) \<le> width m * height m div 2"
    using b2 by auto
  from gf acc b1 b2 b3 show ?thesis unfolding cellsAccepted_def by blast
qed

theorem generateFoodFast_cells_witness:
  "width arena * height arena \<le> INT_MAX \<and>
   generateFoodFast arena counting_rng 0 3 [Point 2 3 \<mapsto> 1] {Point 0 1} =
     Inr ([Food (Point 4 5), Food (Point 6 7), Food (Point 8 9)], 10) \<and>
   (\<exists>fs k'. generateFoodFast arena counting_rng 0 80 [Point 2 3 \<mapsto> 1] {Point 0 1} =
      Inr (fs, k') \<and> int (length fs) \<le> 50 \<and>
      (\<forall>f \<in> set fs. getPosition f \<noteq> Point 0 1 \<and> getPosition f \<noteq> Point 2 3))"
proof -
  have h: "width arena * height arena \<le> INT_MAX" by (simp add: arena_def INT_MAX_def)
  have v: "generateFoodFast arena counting_rng 0 3 [Point 2 3 \<mapsto> 1] {Point 0 1} =
     Inr ([Food (Point 4 5), Food (Point 6 7), Food (Point 8 9)], 10)"
    by code_simp
  from generateFoodFast_cells [OF h, of counting_rng 0 80 "[Point 2 3 \<mapsto> 1]" "{Point 0 1}"]
  obtain fs k' where
    r: "generateFoodFast arena counting_rng 0 80 [Point 2 3 \<mapsto> 1] {Point 0 1} = Inr (fs, k')"
    and c: "\<forall>f \<in> set fs. getPosition f \<notin> {Point 0 1} \<and>
              [Point 2 3 \<mapsto> (1::int)] (getPosition f) = None"
    and l: "80 > width arena * height arena div 2 \<longrightarrow>
              int (length fs) \<le> max 1 (width arena * height arena div 2)"
    by blast
  from l have "int (length fs) \<le> 50" by (simp add: arena_def)
  moreover from c have
    "\<forall>f \<in> set fs. getPosition f \<noteq> Point 0 1 \<and> getPosition f \<noteq> Point 2 3"
    by (auto split: if_splits)
  ultimately show ?thesis using h v r by blast
qed

lemma isPositionOccupied_iff:
  "isPositionOccupied c ps \<longleftrightarrow>
     (\<exists>q. Some q \<in> set ps \<and> isInGame q \<and> alive (getSnake q) \<and> c \<in> blockSet (getSnake q))"
  by (induction c ps rule: isPositionOccupied.induct) (auto simp: collidesWithBody_def)

lemma attemptSlow_Some:
  "attemptSlow n m g ps gen k = (Some c, k') \<Longrightarrow>
     isValidPosition m c \<and> c \<notin> gen \<and> \<not> isPositionOccupied c ps"
  by (induction n arbitrary: k) (auto split: prod.splits if_splits)

lemma foodLoopSlow_accepted:
  "foodLoopSlow n m g ps fs gen k = (fs', k') \<Longrightarrow>
   cellsAccepted (\<lambda>c. isValidPosition m c \<and> \<not> isPositionOccupied c ps) fs \<Longrightarrow>
   getPosition ` set fs \<subseteq> gen \<Longrightarrow>
     cellsAccepted (\<lambda>c. isValidPosition m c \<and> \<not> isPositionOccupied c ps) fs' \<and>
     length fs' \<le> length fs + n"
proof (induction n arbitrary: fs gen k)
  case 0
  then show ?case by simp
next
  case (Suc n)
  obtain r k1 where a: "attemptSlow 100 m g ps gen k = (r, k1)"
    by (cases "attemptSlow 100 m g ps gen k")
  show ?case
  proof (cases r)
    case None
    with a Suc.prems(1) have "foodLoopSlow n m g ps fs gen k1 = (fs', k')" by simp
    from Suc.IH [OF this Suc.prems(2,3)] show ?thesis by simp
  next
    case (Some c)
    with a Suc.prems(1) have
      l: "foodLoopSlow n m g ps (fs @ [Food c]) (insert c gen) k1 = (fs', k')" by simp
    from a Some have c: "isValidPosition m c" "c \<notin> gen" "\<not> isPositionOccupied c ps"
      using attemptSlow_Some by blast+
    from c Suc.prems(2,3) have acc:
      "cellsAccepted (\<lambda>c. isValidPosition m c \<and> \<not> isPositionOccupied c ps) (fs @ [Food c])"
      by (auto simp: cellsAccepted_def)
    from Suc.prems(3) have sub: "getPosition ` set (fs @ [Food c]) \<subseteq> insert c gen"
      by auto
    from Suc.IH [OF l acc sub] show ?thesis by simp
  qed
qed

text \<open>
  The list-walking generator \<open>generateFood\<close> gives the same guarantees with respect to
  the cells of the live, in-game snakes; it is not given the existing foods.
\<close>

lemma generateFood_cells:
  assumes "generateFood m g k count ps = Inr (fs, k')"
  shows "(\<forall>f \<in> set fs. isValidPosition m (getPosition f) \<and>
            \<not> isPositionOccupied (getPosition f) ps) \<and>
         distinct (map getPosition fs)"
proof (cases "count \<le> 0 \<or> width m \<le> 0 \<or> height m \<le> 0")
  case True
  with assms have "fs = []" by (auto simp: generateFood_def split: if_splits)
  then show ?thesis by simp
next
  case False
  with assms have l: "foodLoopSlow (nat (cappedCount m count)) m g ps [] {} k = (fs, k')"
    by (simp add: generateFood_def split: if_splits)
  have "cellsAccepted (\<lambda>c. isValidPosition m c \<and> \<not> isPositionOccupied c ps) []"
    by (simp add: cellsAccepted_def)
  from foodLoopSlow_accepted [OF l this] show ?thesis by (simp add: cellsAccepted_def)
qed

section \<open>Login\<close>

lemma c_str_idem: "c_str (c_str s) = c_str s"
  by (simp add: c_str_def)

lemma c_str_eq_iff: "c_str s = s \<longleftrightarrow> CHR 0x00 \<notin> set s"
  by (auto simp: c_str_def)

lemma find_uid_map:
  "(\<And>r. row_uid (h r) = row_uid r) \<Longrightarrow>
     find (\<lambda>r. row_uid r = u) (map h xs) = map_option h (find (\<lambda>r. row_uid r = u) xs)"
  by (induction xs) simp_all

lemma find_snoc: "\<forall>r \<in> set xs. \<not> P r \<Longrightarrow> P y \<Longrightarrow> find P (xs @ [y]) = Some y"
  by (induction xs) simp_all

lemma keyInTable_iff:
  "keyInTable d k \<longleftrightarrow> (\<exists>r \<in> set (playersTable d). row_key r = c_str k)"
  by (simp add: keyInTable_def list_ex_iff)

lemma rekey_distinct:
  assumes "distinct (map row_uid xs)" and "distinct (map row_key xs)"
    and "g \<notin> row_key ` set xs"
  shows "distinct (map (\<lambda>r. if row_uid r = u then g else row_key r) xs)"
proof -
  let ?k = "\<lambda>r. if row_uid r = u then g else row_key r"
  from assms have dx: "distinct xs" and ik: "inj_on row_key (set xs)"
    and iu: "inj_on row_uid (set xs)"
    by (auto simp: distinct_map)
  have "inj_on ?k (set xs)"
  proof (rule inj_onI)
    fix a b assume a: "a \<in> set xs" and b: "b \<in> set xs" and e: "?k a = ?k b"
    from a b assms(3) have ng: "row_key a \<noteq> g" "row_key b \<noteq> g" by auto
    show "a = b"
    proof (cases "row_uid a = u")
      case True
      with e ng have "row_uid b = u" by (simp split: if_splits)
      with True a b iu show ?thesis by (auto dest: inj_onD)
    next
      case False
      with e ng have "row_key a = row_key b" by (simp split: if_splits)
      with a b ik show ?thesis by (auto dest: inj_onD)
    qed
  qed
  with dx show ?thesis by (simp add: distinct_map)
qed

lemma rekey_keys:
  assumes "distinct (map row_uid xs)" and "distinct (map row_key xs)"
    and "g \<notin> row_key ` set xs"
  shows "distinct (map row_key
           (map (\<lambda>r. if row_uid r = u
                     then r\<lparr>row_paste := p, row_key := g, row_last_login := t\<rparr> else r) xs))"
proof -
  have eq: "map row_key
           (map (\<lambda>r. if row_uid r = u
                     then r\<lparr>row_paste := p, row_key := g, row_last_login := t\<rparr> else r) xs) =
        map (\<lambda>r. if row_uid r = u then g else row_key r) xs"
    by simp
  show ?thesis unfolding eq using assms by (rule rekey_distinct)
qed

lemma rekey_distinct_own:
  assumes "distinct (map row_uid xs)" and "distinct (map row_key xs)"
    and "\<forall>r \<in> set xs. row_uid r \<noteq> u \<longrightarrow> row_key r \<noteq> g"
  shows "distinct (map (\<lambda>r. if row_uid r = u then g else row_key r) xs)"
proof -
  let ?k = "\<lambda>r. if row_uid r = u then g else row_key r"
  from assms have dx: "distinct xs" and ik: "inj_on row_key (set xs)"
    and iu: "inj_on row_uid (set xs)"
    by (auto simp: distinct_map)
  have "inj_on ?k (set xs)"
  proof (rule inj_onI)
    fix a b assume a: "a \<in> set xs" and b: "b \<in> set xs" and e: "?k a = ?k b"
    show "a = b"
    proof (cases "row_uid a = u")
      case True
      with e b assms(3) have "row_uid b = u" by (auto split: if_splits)
      with True a b iu show ?thesis by (auto dest: inj_onD)
    next
      case False
      with e a assms(3) have "row_uid b \<noteq> u" by (auto split: if_splits)
      with False e have "row_key a = row_key b" by simp
      with a b ik show ?thesis by (auto dest: inj_onD)
    qed
  qed
  with dx show ?thesis by (simp add: distinct_map)
qed

lemma table_ok_empty: "table_ok \<lparr>connected = b, playersTable = []\<rparr>"
  by (simp add: table_ok_def)

lemma table_ok_updateLastLogin: "table_ok d \<Longrightarrow> table_ok (snd (updateLastLogin d t u))"
proof -
  assume ok: "table_ok d"
  let ?h = "\<lambda>r. if row_uid r = c_str u then r\<lparr>row_last_login := t\<rparr> else r"
  have u: "map row_uid (map ?h (playersTable d)) = map row_uid (playersTable d)"
    and k: "map row_key (map ?h (playersTable d)) = map row_key (playersTable d)"
    by (simp_all add: comp_def if_distrib cong: if_cong)
  have "\<forall>x \<in> set (map ?h (playersTable d)). c_str (row_uid x) = row_uid x \<and>
      c_str (row_paste x) = row_paste x \<and> c_str (row_key x) = row_key x"
    using ok by (auto simp: table_ok_def)
  with ok u k show ?thesis
    by (simp add: updateLastLogin_def table_ok_def del: map_map set_map)
qed

lemma table_ok_updatePasteKey: "table_ok d \<Longrightarrow> table_ok (snd (updatePasteKey d p g t u))"
proof -
  assume ok: "table_ok d"
  let ?tab = "playersTable d"
  let ?h = "\<lambda>r. if row_uid r = c_str u
                 then r\<lparr>row_paste := c_str p, row_key := c_str g, row_last_login := t\<rparr>
                 else r"
  show ?thesis
  proof (cases "fst (updatePasteKey d p g t u)")
    case False
    then have "snd (updatePasteKey d p g t u) = d"
      by (auto simp: updatePasteKey_def split: if_splits)
    with ok show ?thesis by simp
  next
    case True
    then have d': "snd (updatePasteKey d p g t u) = d\<lparr>playersTable := map ?h ?tab\<rparr>"
      and free: "\<not> (list_ex (\<lambda>r. row_uid r = c_str u) ?tab \<and>
                    list_ex (\<lambda>r. row_uid r \<noteq> c_str u \<and> row_key r = c_str g) ?tab)"
      by (auto simp: updatePasteKey_def split: if_splits)
    have u: "map row_uid (map ?h ?tab) = map row_uid ?tab"
      by (simp add: comp_def if_distrib cong: if_cong)
    have keq: "map row_key (map ?h ?tab) =
        map (\<lambda>r. if row_uid r = c_str u then c_str g else row_key r) ?tab"
      by simp
    have dk: "distinct (map row_key (map ?h ?tab))"
    proof (cases "list_ex (\<lambda>r. row_uid r = c_str u) ?tab")
      case True
      with free have "\<forall>r \<in> set ?tab. row_uid r \<noteq> c_str u \<longrightarrow> row_key r \<noteq> c_str g"
        by (auto simp: list_ex_iff)
      with ok show ?thesis unfolding keq
        by (intro rekey_distinct_own) (auto simp: table_ok_def)
    next
      case False
      then have "map ?h ?tab = ?tab" by (auto simp: list_ex_iff intro: map_idI)
      with ok show ?thesis by (simp add: table_ok_def del: map_map)
    qed
    have "\<forall>x \<in> set (map ?h ?tab). c_str (row_uid x) = row_uid x \<and>
      c_str (row_paste x) = row_paste x \<and> c_str (row_key x) = row_key x"
      using ok by (auto simp: table_ok_def c_str_idem)
    with ok u dk show ?thesis unfolding d'
      by (simp add: table_ok_def del: map_map set_map)
  qed
qed

lemma table_ok_insertPlayer: "table_ok d \<Longrightarrow> table_ok (snd (insertPlayer d u p k t))"
  by (auto simp: insertPlayer_def table_ok_def list_ex_iff c_str_idem)

text \<open>The constraints of the table hold after every login, whatever its arguments.\<close>

lemma table_ok_login:
  assumes "table_ok (db pm)"
  shows "table_ok (db (snd (login checkLogin g t u p pm)))"
proof (cases "checkLogin u p")
  case False
  with assms show ?thesis by (simp add: login_def)
next
  case True
  show ?thesis
  proof (cases "selectByUid (db pm) u")
    case None
    with True table_ok_insertPlayer [OF assms, of u p g t] show ?thesis
      by (auto simp: login_def split: prod.splits bool.splits)
  next
    case (Some r)
    with True table_ok_updateLastLogin [OF assms, of t u]
      table_ok_updatePasteKey [OF assms, of p g t u]
    show ?thesis
      by (auto simp: login_def Let_def split: prod.splits bool.splits)
  qed
qed

text \<open>What one verified login on a connected, consistent table with a fresh key achieves.\<close>

lemma login_post:
  assumes v: "checkLogin u p" and c: "connected (db pm)" and ok: "table_ok (db pm)"
    and np: "c_str p = p" and ng: "c_str g = g"
    and fresh: "\<not> keyInTable (db pm) g"
    and l: "login checkLogin g t u p pm = (k, pm')"
  shows "connected (db pm') \<and> table_ok (db pm') \<and>
         (\<exists>r. selectByUid (db pm') u = Some r \<and> row_key r = k \<and> row_paste r = p)"
proof (cases "selectByUid (db pm) u")
  case None
  let ?tab = "playersTable (db pm)"
  let ?row = "\<lparr>row_uid = c_str u, row_paste = p, row_key = g, row_created_at = t,
               row_last_login = t\<rparr>"
  from None c have nou: "\<forall>r \<in> set ?tab. row_uid r \<noteq> c_str u"
    by (simp add: selectByUid_def find_None_iff)
  from fresh ng have nok: "\<forall>r \<in> set ?tab. row_key r \<noteq> g"
    by (auto simp: keyInTable_iff)
  from nou nok c np ng have ins: "insertPlayer (db pm) u p g t =
      (True, (db pm)\<lparr>playersTable := ?tab @ [?row]\<rparr>)"
    by (auto simp: insertPlayer_def list_ex_iff)
  from l v None ins have k: "k = g"
    and pm': "db pm' = (db pm)\<lparr>playersTable := ?tab @ [?row]\<rparr>"
    by (auto simp: login_def)
  have "find (\<lambda>r. row_uid r = c_str u) (?tab @ [?row]) = Some ?row"
    using nou by (intro find_snoc) simp_all
  with c pm' have sel: "selectByUid (db pm') u = Some ?row"
    by (simp add: selectByUid_def)
  have conn: "connected (db pm')" using c pm' by simp
  have tok: "table_ok (db pm')"
    using ok pm' nou nok np ng by (auto simp: table_ok_def c_str_idem)
  from sel k conn tok show ?thesis by simp
next
  case (Some r)
  let ?tab = "playersTable (db pm)"
  from Some c have f: "find (\<lambda>r. row_uid r = c_str u) ?tab = Some r"
    by (simp add: selectByUid_def split: if_splits)
  then have rin: "r \<in> set ?tab" and ru: "row_uid r = c_str u"
    by (auto simp: find_Some_iff)
  from ok rin have rc: "c_str (row_key r) = row_key r" "c_str (row_paste r) = row_paste r"
    by (auto simp: table_ok_def)
  from ok have cs: "\<forall>x \<in> set ?tab. c_str (row_uid x) = row_uid x \<and>
      c_str (row_paste x) = row_paste x \<and> c_str (row_key x) = row_key x"
    by (simp add: table_ok_def)
  show ?thesis
  proof (cases "row_paste r = p")
    case True
    let ?h = "\<lambda>r. if row_uid r = c_str u then r\<lparr>row_last_login := t\<rparr> else r"
    from l v Some True c rc have k: "k = row_key r"
      and pm': "db pm' = (db pm)\<lparr>playersTable := map ?h ?tab\<rparr>"
      by (auto simp: login_def updateLastLogin_def Let_def)
    have u: "map row_uid (map ?h ?tab) = map row_uid ?tab"
      and kk: "map row_key (map ?h ?tab) = map row_key ?tab"
      by (simp_all add: comp_def if_distrib cong: if_cong)
    have "find (\<lambda>r. row_uid r = c_str u) (map ?h ?tab) = map_option ?h (Some r)"
      using f by (subst find_uid_map) auto
    with c pm' have sel: "selectByUid (db pm') u = Some (?h r)"
      by (simp add: selectByUid_def)
    have kp: "row_key (?h r) = k \<and> row_paste (?h r) = p" using k True by simp
    have conn: "connected (db pm')" using c pm' by simp
    have "\<forall>x \<in> set (map ?h ?tab). c_str (row_uid x) = row_uid x \<and>
      c_str (row_paste x) = row_paste x \<and> c_str (row_key x) = row_key x"
      using cs by auto
    with ok pm' u kk have tok: "table_ok (db pm')"
      by (simp add: table_ok_def del: map_map set_map)
    from sel kp conn tok show ?thesis by blast
  next
    case False
    let ?h = "\<lambda>r. if row_uid r = c_str u
                   then r\<lparr>row_paste := p, row_key := g, row_last_login := t\<rparr> else r"
    from fresh ng have nok: "\<forall>r \<in> set ?tab. row_key r \<noteq> g"
      by (auto simp: keyInTable_iff)
    with c np ng have up: "updatePasteKey (db pm) p g t u =
        (True, (db pm)\<lparr>playersTable := map ?h ?tab\<rparr>)"
      by (auto simp: updatePasteKey_def list_ex_iff)
    from l v Some False up rc have k: "k = g"
      and pm': "db pm' = (db pm)\<lparr>playersTable := map ?h ?tab\<rparr>"
      by (auto simp: login_def Let_def)
    have u: "map row_uid (map ?h ?tab) = map row_uid ?tab"
      by (simp add: comp_def if_distrib cong: if_cong)
    have dk: "distinct (map row_key (map ?h ?tab))"
      using ok nok by (intro rekey_keys) (auto simp: table_ok_def)
    have "find (\<lambda>r. row_uid r = c_str u) (map ?h ?tab) = map_option ?h (Some r)"
      using f by (subst find_uid_map) auto
    with c pm' have sel: "selectByUid (db pm') u = Some (?h r)"
      by (simp add: selectByUid_def)
    have kp: "row_key (?h r) = k \<and> row_paste (?h r) = p" using k ru by simp
    have conn: "connected (db pm')" using c pm' by simp
    have "\<forall>x \<in> set (map ?h ?tab). c_str (row_uid x) = row_uid x \<and>
      c_str (row_paste x) = row_paste x \<and> c_str (row_key x) = row_key x"
      using cs np ng by auto
    with ok pm' u dk have tok: "table_ok (db pm')"
      by (simp add: table_ok_def del: map_map set_map)
    from sel kp conn tok show ?thesis by blast
  qed
qed

lemma login_same_paste:
  assumes v: "checkLogin u p" and sel: "selectByUid (db pm) u = Some r"
    and "row_paste r = p" and "c_str p = p" and "c_str (row_key r) = row_key r"
  shows "fst (login checkLogin g t u p pm) = row_key r"
  using assms by (simp add: login_def Let_def)

lemma login_other_paste:
  assumes v: "checkLogin u p" and c: "connected (db pm)" and ok: "table_ok (db pm)"
    and sel: "selectByUid (db pm) u = Some r" and np: "row_paste r \<noteq> p"
    and fresh: "\<not> keyInTable (db pm) g"
  shows "fst (login checkLogin g t u p pm) = g \<and> g \<noteq> row_key r \<and>
         validateKey (snd (login checkLogin g t u p pm)) (row_key r) = None \<and>
         validateKey (snd (login checkLogin g t u p pm)) g = Some u"
proof -
  let ?h = "\<lambda>r. if row_uid r = c_str u
                 then r\<lparr>row_paste := c_str p, row_key := c_str g, row_last_login := t\<rparr>
                 else r"
  let ?tab = "playersTable (db pm)"
  from sel c have f: "find (\<lambda>r. row_uid r = c_str u) ?tab = Some r"
    by (simp add: selectByUid_def split: if_splits)
  then have rin: "r \<in> set ?tab" and ru: "row_uid r = c_str u"
    by (auto simp: find_Some_iff)
  from ok rin have rc: "c_str (row_key r) = row_key r" "c_str (row_paste r) = row_paste r"
    by (auto simp: table_ok_def)
  from fresh have nok: "\<forall>x \<in> set ?tab. row_key x \<noteq> c_str g"
    by (auto simp: keyInTable_iff)
  with rin have cgk: "c_str g \<noteq> row_key r" by auto
  have gk: "g \<noteq> row_key r"
  proof
    assume "g = row_key r"
    with rc have "c_str g = row_key r" by simp
    with cgk show False by simp
  qed
  from nok c have up: "updatePasteKey (db pm) p g t u =
      (True, (db pm)\<lparr>playersTable := map ?h ?tab\<rparr>)"
    by (auto simp: updatePasteKey_def list_ex_iff)
  from v sel np up rc have lg: "login checkLogin g t u p pm =
      (g, pm\<lparr>db := (db pm)\<lparr>playersTable := map ?h ?tab\<rparr>,
              uidToKey := (uidToKey pm)(u \<mapsto> g),
              keyToUid := ((keyToUid pm)(row_key r := None))(g \<mapsto> u)\<rparr>)"
    by (simp add: login_def Let_def)
  from ok have ik: "inj_on row_key (set ?tab)"
    by (simp add: table_ok_def distinct_map)
  have "\<forall>x \<in> set (map ?h ?tab). row_key x \<noteq> row_key r"
  proof
    fix x assume "x \<in> set (map ?h ?tab)"
    then obtain y where y: "y \<in> set ?tab" "x = ?h y" by auto
    show "row_key x \<noteq> row_key r"
    proof (cases "row_uid y = c_str u")
      case True
      with y cgk show ?thesis by simp
    next
      case False
      with ru have "y \<noteq> r" by auto
      with ik y(1) rin have "row_key y \<noteq> row_key r" by (auto dest: inj_onD)
      with False y show ?thesis by simp
    qed
  qed
  then have "find (\<lambda>x. row_key x = row_key r) (map ?h ?tab) = None"
    by (simp only: find_None_iff) blast
  with gk c rc have v1: "validateKey (snd (login checkLogin g t u p pm)) (row_key r) = None"
    unfolding lg by (simp add: validateKey_def selectUidByKey_def)
  have v2: "validateKey (snd (login checkLogin g t u p pm)) g = Some u"
    unfolding lg by (simp add: validateKey_def)
  from lg gk v1 v2 show ?thesis by simp
qed

text \<open>
  C6.  Take a connected database whose table satisfies its constraints, a uid and two
  pastes that pass the identity check, the first paste without a NUL byte, and a first
  login whose generated key has no NUL byte and is not yet in the table.  A second login
  with the same paste returns the key of the first.  A second login with a different
  paste, whose generated key is not in the table either, returns that new key, which
  differs from the first; afterwards \<open>validateKey\<close> finds no uid for the first key and
  finds the uid for the new one.
\<close>

theorem login_key_rotation:
  assumes v1: "checkLogin u p1" and v2: "checkLogin u p2"
    and c: "connected (db pm)" and ok: "table_ok (db pm)"
    and n1: "CHR 0x00 \<notin> set p1" and ng1: "CHR 0x00 \<notin> set g1"
    and f1: "\<not> keyInTable (db pm) g1"
    and l1: "login checkLogin g1 t1 u p1 pm = (k1, pm1)"
  shows "fst (login checkLogin g2 t2 u p1 pm1) = k1 \<and>
         (p1 \<noteq> p2 \<and> \<not> keyInTable (db pm1) g2 \<longrightarrow>
            fst (login checkLogin g2 t2 u p2 pm1) = g2 \<and> g2 \<noteq> k1 \<and>
            validateKey (snd (login checkLogin g2 t2 u p2 pm1)) k1 = None \<and>
            validateKey (snd (login checkLogin g2 t2 u p2 pm1)) g2 = Some u)"
proof -
  from n1 ng1 have np: "c_str p1 = p1" and ng: "c_str g1 = g1"
    by (simp_all add: c_str_eq_iff)
  from login_post [where checkLogin = checkLogin and u = u and p = p1,
      OF v1 c ok np ng f1 l1]
  obtain r where
    c1: "connected (db pm1)" and ok1: "table_ok (db pm1)"
    and sel: "selectByUid (db pm1) u = Some r" and rk: "row_key r = k1"
    and rp: "row_paste r = p1"
    by blast
  from sel c1 have "r \<in> set (playersTable (db pm1))"
    by (auto simp: selectByUid_def find_Some_iff split: if_splits)
  with ok1 have rc: "c_str (row_key r) = row_key r" by (auto simp: table_ok_def)
  have a: "fst (login checkLogin g2 t2 u p1 pm1) = k1"
    using login_same_paste [where checkLogin = checkLogin and u = u and p = p1,
        OF v1 sel rp np rc] rk by simp
  have b: "fst (login checkLogin g2 t2 u p2 pm1) = g2 \<and> g2 \<noteq> k1 \<and>
            validateKey (snd (login checkLogin g2 t2 u p2 pm1)) k1 = None \<and>
            validateKey (snd (login checkLogin g2 t2 u p2 pm1)) g2 = Some u"
    if "p1 \<noteq> p2" and "\<not> keyInTable (db pm1) g2"
    using login_other_paste [where checkLogin = checkLogin and u = u and p = p2,
        OF v2 c1 ok1 sel _ that(2)] that(1) rp rk by simp
  from a b show ?thesis by simp
qed

theorem login_key_rotation_witness:
  "two_pastes ''1001'' ''pasteA'' \<and> two_pastes ''1001'' ''pasteB'' \<and>
   connected (db fresh_manager) \<and> table_ok (db fresh_manager) \<and>
   CHR 0x00 \<notin> set ''pasteA'' \<and> CHR 0x00 \<notin> set ''key1'' \<and>
   \<not> keyInTable (db fresh_manager) ''key1'' \<and>
   fst (login two_pastes ''key1'' 10 ''1001'' ''pasteA'' fresh_manager) = ''key1'' \<and>
   fst (login two_pastes ''key2'' 20 ''1001'' ''pasteA''
          (snd (login two_pastes ''key1'' 10 ''1001'' ''pasteA'' fresh_manager))) = ''key1'' \<and>
   fst (login two_pastes ''key2'' 20 ''1001'' ''pasteB''
          (snd (login two_pastes ''key1'' 10 ''1001'' ''pasteA'' fresh_manager))) = ''key2'' \<and>
   validateKey
     (snd (login two_pastes ''key2'' 20 ''1001'' ''pasteB''
             (snd (login two_pastes ''key1'' 10 ''1001'' ''pasteA'' fresh_manager))))
     ''key1'' = None"
proof -
  let ?l1 = "login two_pastes ''key1'' 10 ''1001'' ''pasteA'' fresh_manager"
  have v: "two_pastes ''1001'' ''pasteA''" "two_pastes ''1001'' ''pasteB''"
    by (simp_all add: two_pastes_def)
  have c: "connected (db fresh_manager)" and ok: "table_ok (db fresh_manager)"
    and f1: "\<not> keyInTable (db fresh_manager) ''key1''"
    by (simp_all add: fresh_manager_def table_ok_def keyInTable_def)
  have n: "CHR 0x00 \<notin> set ''pasteA''" "CHR 0x00 \<notin> set ''key1''" by simp_all
  have l1: "?l1 = (fst ?l1, snd ?l1)" by simp
  have k1: "fst ?l1 = ''key1''"
    by (simp add: login_def two_pastes_def fresh_manager_def selectByUid_def
        insertPlayer_def c_str_def)
  have f2: "\<not> keyInTable (db (snd ?l1)) ''key2''"
    by (simp add: login_def two_pastes_def fresh_manager_def selectByUid_def
        insertPlayer_def keyInTable_def c_str_def)
  from login_key_rotation [where checkLogin = two_pastes and ?p1.0 = "''pasteA''"
      and ?p2.0 = "''pasteB''" and ?g2.0 = "''key2''" and ?t2.0 = 20,
      OF v c ok n f1 l1] f2 k1 v c ok f1 n
  show ?thesis by simp
qed

text \<open>
  A paste with a NUL byte is stored up to that byte and never matches itself again: every
  login with it makes a new key.
\<close>

lemma login_nul_paste_rotates:
  "fst (login (\<lambda>u p. True) ''key1'' 10 ''1001'' (''paste'' @ [CHR 0x00] @ ''A'')
          fresh_manager) = ''key1'' \<and>
   fst (login (\<lambda>u p. True) ''key2'' 20 ''1001'' (''paste'' @ [CHR 0x00] @ ''A'')
          (snd (login (\<lambda>u p. True) ''key1'' 10 ''1001'' (''paste'' @ [CHR 0x00] @ ''A'')
                  fresh_manager))) = ''key2''"
  by (simp add: login_def fresh_manager_def selectByUid_def insertPlayer_def
      updatePasteKey_def c_str_def Let_def)


end
